theory Spec2Isabelle
  imports Complex_Main "HOL-Library.Word"
begin

section \<open>k2000: data acquisition from a Keithley 2000 over GPIB\<close>

text \<open>
  A shallow embedding of \<^verbatim>\<open>k2000.c\<close>. The program is one \<^verbatim>\<open>main\<close> that parses
  its command line, opens the output file and the instrument, runs the sampling loop and
  shuts down. Everything \<^verbatim>\<open>main\<close> receives from outside (the file system, the answer
  typed at the overwrite prompt, the status of every GPIB call, the bytes the instrument
  returns, the wall clock, the keyboard) is a field of an environment record; everything
  it does to the outside (the output file, the gnuplot pipe, the terminal mode, the
  commands written to the bus, the messages on the error stream) is a field of a world
  record that is passed along and returned.

  C strings are \<^typ>\<open>string\<close> (the bytes before the terminating NUL). The variables of type
  \<^verbatim>\<open>int\<close> only ever hold values that \<^verbatim>\<open>sscanf\<close> read with a field width of at most
  six characters, or character codes, so they are modelled by \<^typ>\<open>int\<close>; the sample counter
  is an \<^verbatim>\<open>unsigned long\<close> and is a 64-bit word, as are the two \<^verbatim>\<open>long\<close> fields of a
  \<^verbatim>\<open>struct timeval\<close>. A \<^verbatim>\<open>double\<close> or \<^verbatim>\<open>float\<close> is the rational number it stands for;
  every conversion and every arithmetic operation of the code rounds its exact result to
  the nearest number of the format, ties to even, as IEEE 754 arithmetic does. The
  strings of \<^verbatim>\<open>argv\<close> hold no NUL byte. The disclaimer, the usage text of the option loop and what is printed on the
  standard output stream (the settings, the progress line) are not recorded.
\<close>

subsection \<open>Characters and constants\<close>

abbreviation NUL :: char where "NUL \<equiv> CHR 0x00"
abbreviation TAB :: char where "TAB \<equiv> CHR 0x09"
abbreviation LF :: char where "LF \<equiv> CHR 0x0A"
abbreviation VT :: char where "VT \<equiv> CHR 0x0B"
abbreviation FF :: char where "FF \<equiv> CHR 0x0C"
abbreviation CR :: char where "CR \<equiv> CHR 0x0D"
abbreviation SQ :: char where "SQ \<equiv> CHR 0x27"

abbreviation MAXLEN :: nat where "MAXLEN \<equiv> 127"
abbreviation ESC :: int where "ESC \<equiv> 27"
abbreviation EOF :: int where "EOF \<equiv> - 1"
abbreviation ERR_FILE :: int where "ERR_FILE \<equiv> 4"
abbreviation ERR_INST :: int where "ERR_INST \<equiv> 5"
abbreviation GNUPLOT :: string where "GNUPLOT \<equiv> ''gnuplot''"
abbreviation VERSION :: string where "VERSION \<equiv> ''V20170725''"

text \<open>How a run of \<^verbatim>\<open>main\<close> ends: it returns an exit code, or it executes an operation
  whose behaviour C leaves undefined (a division by zero, \<^verbatim>\<open>pclose\<close> of a null stream, a
  null pointer passed to a string function, a write outside a buffer).\<close>

datatype fault = DivByZero | NullStream | NullPointer | OutOfBounds

datatype outcome = Exit int | Fault fault

subsection \<open>The variables of \<^verbatim>\<open>main\<close>\<close>

record vars =
  do_display :: bool
  do_graph :: bool
  do_overwrite :: bool
  pad :: int
  do_flush :: int
  delay :: int
  mode :: int
  tstop :: rat
  comment :: string
  gnuplot :: string
  filename :: string
  inst :: string
  buffer :: string
  key :: int
  loop :: "64 word"
  t0 :: rat
  peek_character :: int

definition init_vars :: vars where
  "init_vars =
     \<lparr>do_display = True, do_graph = True, do_overwrite = False,
      pad = 16, do_flush = 100, delay = 10, mode = 0, tstop = 0,
      comment = [], gnuplot = GNUPLOT, filename = [], inst = [], buffer = [],
      key = 0, loop = 0, t0 = 0, peek_character = - 1\<rparr>"

subsection \<open>\<^verbatim>\<open>GetOpt\<close>: the command-line scanner\<close>

text \<open>The globals \<^verbatim>\<open>optind\<close>, \<^verbatim>\<open>optarg\<close> and the static \<^verbatim>\<open>letP\<close>. A pointer into an
  argument is the rest of that argument; \<^verbatim>\<open>NULL\<close> is \<^term>\<open>None\<close>.\<close>

record getopt_state =
  optind :: nat
  letP :: "string option"
  optarg :: "string option"

definition init_getopt :: getopt_state where
  "init_getopt = \<lparr>optind = 1, letP = None, optarg = None\<rparr>"

abbreviation SW :: char where "SW \<equiv> CHR ''-''"

text \<open>\<^verbatim>\<open>argv[i]\<close>, with \<^verbatim>\<open>argv[argc] == NULL\<close>.\<close>

definition arg_at :: "string list \<Rightarrow> nat \<Rightarrow> string option" where
  "arg_at argv i = (if i < length argv then Some (argv ! i) else None)"

definition gopEOF :: "getopt_state \<Rightarrow> int \<times> getopt_state" where
  "gopEOF g = (EOF, g\<lparr>optarg := None, letP := None\<rparr>)"

definition gopError :: "getopt_state \<Rightarrow> int \<times> getopt_state" where
  "gopError g = (of_char (CHR ''~''), g\<lparr>optarg := None\<rparr>)"

text \<open>\<^verbatim>\<open>optP = strchr (optionS, ch)\<close> followed by \<^verbatim>\<open>':' == *(++optP)\<close>: \<^term>\<open>None\<close> when the
  letter is not in the option string, otherwise whether a colon follows its first
  occurrence.\<close>

definition opt_lookup :: "string \<Rightarrow> char \<Rightarrow> bool option" where
  "opt_lookup optionS ch =
     (case dropWhile (\<lambda>c. c \<noteq> ch) optionS of
        [] \<Rightarrow> None
      | _ # rest \<Rightarrow> Some (case rest of [] \<Rightarrow> False | c # _ \<Rightarrow> c = CHR '':''))"

text \<open>The body of \<^verbatim>\<open>GetOpt\<close> from \<^verbatim>\<open>ch = *(letP++)\<close> on; \<open>l\<close> is the text \<^verbatim>\<open>letP\<close>
  points to.\<close>

definition GetOpt_letter :: "string list \<Rightarrow> string \<Rightarrow> getopt_state \<Rightarrow> string \<Rightarrow> int \<times> getopt_state" where
  "GetOpt_letter argv optionS g l =
     (case l of
        [] \<Rightarrow> gopEOF (g\<lparr>optind := optind g + 1\<rparr>)
      | ch # l' \<Rightarrow>
          if ch = CHR '':'' then gopError (g\<lparr>letP := Some l'\<rparr>)
          else
            (case opt_lookup optionS ch of
               None \<Rightarrow> gopError (g\<lparr>letP := Some l'\<rparr>)
             | Some True \<Rightarrow>
                 if l' = [] then
                   (if length argv \<le> optind g + 1
                    then gopError (g\<lparr>optind := optind g + 1, letP := Some l'\<rparr>)
                    else (of_char ch,
                          g\<lparr>optind := optind g + 2,
                            optarg := arg_at argv (optind g + 1), letP := None\<rparr>))
                 else (of_char ch, g\<lparr>optind := optind g + 1, optarg := Some l', letP := None\<rparr>)
             | Some False \<Rightarrow>
                 if l' = [] then (of_char ch, g\<lparr>optind := optind g + 1, letP := None, optarg := None\<rparr>)
                 else (of_char ch, g\<lparr>letP := Some l', optarg := None\<rparr>)))"

definition GetOpt :: "string list \<Rightarrow> string \<Rightarrow> getopt_state \<Rightarrow> int \<times> getopt_state" where
  "GetOpt argv optionS g =
     (if length argv > optind g then
        (case letP g of
           Some l \<Rightarrow> GetOpt_letter argv optionS g l
         | None \<Rightarrow>
             (case arg_at argv (optind g) of
                None \<Rightarrow> gopEOF g
              | Some a \<Rightarrow>
                  (case a of
                     [] \<Rightarrow> gopEOF g
                   | c # r \<Rightarrow>
                       if c \<noteq> SW then gopEOF g
                       else if (case r of [] \<Rightarrow> False | c2 # _ \<Rightarrow> c2 = SW)
                       then gopEOF (g\<lparr>optind := optind g + 1\<rparr>)
                       else GetOpt_letter argv optionS g r)))
      else gopEOF g)"

subsection \<open>The conversions of \<^verbatim>\<open>sscanf\<close> and \<^verbatim>\<open>strclean\<close>\<close>

definition isspace :: "char \<Rightarrow> bool" where
  "isspace c = (c = CHR '' '' \<or> c = TAB \<or> c = LF \<or> c = VT \<or> c = FF \<or> c = CR)"

definition isdigit :: "char \<Rightarrow> bool" where
  "isdigit c = (48 \<le> (of_char c :: nat) \<and> (of_char c :: nat) \<le> 57)"

definition digit_val :: "char \<Rightarrow> nat" where
  "digit_val c = of_char c - 48"

definition dec_val :: "string \<Rightarrow> nat" where
  "dec_val ds = foldl (\<lambda>n c. 10 * n + digit_val c) 0 ds"

text \<open>\<^verbatim>\<open>sscanf (s, "%<w>d", &x)\<close>: white space is skipped, then an optional sign and
  decimal digits are read, at most \<open>w\<close> characters in all. \<^term>\<open>None\<close> when no digit was
  read; the variable then keeps its value.\<close>

definition scan_d :: "nat \<Rightarrow> string \<Rightarrow> int option" where
  "scan_d w s =
     (let s1 = take w (dropWhile isspace s);
          neg = (case s1 of [] \<Rightarrow> False | c # _ \<Rightarrow> c = CHR ''-'');
          signed = (case s1 of [] \<Rightarrow> False | c # _ \<Rightarrow> c = CHR ''-'' \<or> c = CHR ''+'');
          ds = takeWhile isdigit (if signed then tl s1 else s1)
      in if ds = [] then None
         else Some (if neg then - int (dec_val ds) else int (dec_val ds)))"

text \<open>\<^verbatim>\<open>sscanf (s, "%<w>s", buf)\<close>: white space is skipped, then at most \<open>w\<close> characters
  that are not white space are stored.\<close>

definition scan_s :: "nat \<Rightarrow> string \<Rightarrow> string option" where
  "scan_s w s =
     (let t = take w (takeWhile (\<lambda>c. \<not> isspace c) (dropWhile isspace s))
      in if t = [] then None else Some t)"

text \<open>\<^verbatim>\<open>strclean\<close> cuts the text at the first CR or LF; its return value is the length
  of what is left.\<close>

definition strclean :: "string \<Rightarrow> string" where
  "strclean buf = takeWhile (\<lambda>c. c \<noteq> LF \<and> c \<noteq> CR) buf"

subsection \<open>Binary floating point\<close>

text \<open>The integer nearest to a number, the even one of two that are equally near.\<close>

definition round_half_even :: "rat \<Rightarrow> int" where
  "round_half_even x =
     (if x - of_int \<lfloor>x\<rfloor> < 1 / 2 then \<lfloor>x\<rfloor>
      else if 1 / 2 < x - of_int \<lfloor>x\<rfloor> then \<lfloor>x\<rfloor> + 1
      else if even \<lfloor>x\<rfloor> then \<lfloor>x\<rfloor> else \<lfloor>x\<rfloor> + 1)"

text \<open>Powers of two, the number of binary digits of a positive integer, and the exponent
  of the leading binary digit of a positive rational number.\<close>

definition pow2 :: "int \<Rightarrow> rat" where
  "pow2 e = (if 0 \<le> e then 2 ^ nat e else 1 / 2 ^ nat (- e))"

function bits :: "int \<Rightarrow> int" where
  "bits k = (if k \<le> 0 then 0 else 1 + bits (k div 2))"
  by pat_completeness auto
termination
  by (relation "measure nat") auto

declare bits.simps [simp del]

definition ilog2 :: "rat \<Rightarrow> int" where
  "ilog2 x =
     (case quotient_of x of
        (p, q) \<Rightarrow>
          if pow2 (bits p - bits q) \<le> x then bits p - bits q else bits p - bits q - 1)"

text \<open>Rounding to a binary format with \<open>p\<close> significant digits and least exponent \<open>emin\<close>
  (below it the numbers are denormal): the number is rounded to a multiple of the unit in
  its last place.\<close>

definition round_binary :: "nat \<Rightarrow> int \<Rightarrow> rat \<Rightarrow> rat" where
  "round_binary p emin x =
     (if x = 0 then 0
      else of_int (round_half_even (x / pow2 (max (ilog2 \<bar>x\<bar>) emin - int p + 1)))
             * pow2 (max (ilog2 \<bar>x\<bar>) emin - int p + 1))"

text \<open>\<^verbatim>\<open>double\<close>: 53 digits. The numbers this program computes in \<^verbatim>\<open>double\<close> come from
  64-bit integers by a sum, a difference and two divisions by constants, far from the
  largest \<^verbatim>\<open>double\<close>, so overflow does not occur.\<close>

definition to_double :: "rat \<Rightarrow> rat" where
  "to_double x = round_binary 53 (- 1022) x"

text \<open>\<^verbatim>\<open>float\<close>: 24 digits. A number that rounds to \<open>2\<^sup>1\<^sup>2\<^sup>8\<close> or more becomes an
  infinity; it is only ever compared with zero and with a \<^verbatim>\<open>double\<close>, so a number above
  every \<^verbatim>\<open>double\<close> stands for it.\<close>

definition to_float :: "rat \<Rightarrow> rat" where
  "to_float x =
     (if 2 ^ 128 \<le> \<bar>round_binary 24 (- 126) x\<bar>
      then (if x < 0 then - (2 ^ 1024) else 2 ^ 1024)
      else round_binary 24 (- 126) x)"

subsection \<open>The option loop of \<^verbatim>\<open>main\<close>\<close>

text \<open>One pass through the \<^verbatim>\<open>switch\<close>: \<^term>\<open>Inl\<close> is a \<^verbatim>\<open>return\<close> from \<^verbatim>\<open>main\<close>,
  \<^term>\<open>Inr\<close> is \<^verbatim>\<open>continue\<close>. How the conversion \<^verbatim>\<open>%g\<close> of the C library reads a text is the
  parameter \<open>scan_g\<close>: the number the text denotes, or \<^term>\<open>None\<close> when the conversion
  fails; that number is stored into the \<^verbatim>\<open>float\<close> \<^verbatim>\<open>tstop\<close>.\<close>

definition handle_option :: "(string \<Rightarrow> rat option) \<Rightarrow> int \<Rightarrow> string option \<Rightarrow> vars \<Rightarrow> outcome + vars" where
  "handle_option scan_g k oa v =
     (if k = of_char (CHR ''h'') then Inl (Exit 0)
      else if k = of_char (CHR ''f'') then Inr (v\<lparr>do_overwrite := True\<rparr>)
      else if k = of_char (CHR ''n'') then Inr (v\<lparr>do_graph := False\<rparr>)
      else if k = of_char (CHR ''d'') then Inr (v\<lparr>do_display := False\<rparr>)
      else if k = of_char (CHR ''c'') then
        (case oa of
           None \<Rightarrow> Inl (Fault NullPointer)
         | Some a \<Rightarrow>
             if strclean a \<noteq> [] then
               (if length (strclean a) < MAXLEN then Inr (v\<lparr>comment := strclean a\<rparr>)
                else Inl (Fault OutOfBounds))
             else Inr v)
      else if k = of_char (CHR ''g'') then
        (case oa of
           None \<Rightarrow> Inl (Fault NullPointer)
         | Some a \<Rightarrow> Inr (case scan_s 80 a of None \<Rightarrow> v | Some p \<Rightarrow> v\<lparr>gnuplot := p\<rparr>))
      else if k = of_char (CHR ''w'') then
        (case oa of
           None \<Rightarrow> Inl (Fault NullPointer)
         | Some a \<Rightarrow> Inr (case scan_d 5 a of None \<Rightarrow> v | Some n \<Rightarrow> v\<lparr>do_flush := n\<rparr>))
      else if k = of_char (CHR ''a'') then
        (case oa of
           None \<Rightarrow> Inl (Fault NullPointer)
         | Some a \<Rightarrow>
             (let v' = (case scan_d 5 a of None \<Rightarrow> v | Some n \<Rightarrow> v\<lparr>pad := n\<rparr>)
              in if pad v' < 0 \<or> pad v' > 30 then Inl (Exit 1) else Inr v'))
      else if k = of_char (CHR ''t'') then
        (case oa of
           None \<Rightarrow> Inl (Fault NullPointer)
         | Some a \<Rightarrow>
             (let v' = (case scan_d 6 a of None \<Rightarrow> v | Some n \<Rightarrow> v\<lparr>delay := n\<rparr>)
              in if delay v' < 0 \<or> delay v' > 600 then Inl (Exit 1) else Inr v'))
      else if k = of_char (CHR ''T'') then
        (case oa of
           None \<Rightarrow> Inl (Fault NullPointer)
         | Some a \<Rightarrow>
             (let v' = (case scan_g a of None \<Rightarrow> v | Some x \<Rightarrow> v\<lparr>tstop := to_float x\<rparr>)
              in if tstop v' < 0 then Inl (Exit 1) else Inr v'))
      else if k = of_char (CHR ''m'') then
        (case oa of
           None \<Rightarrow> Inl (Fault NullPointer)
         | Some a \<Rightarrow>
             (let v' = (case scan_d 5 a of None \<Rightarrow> v | Some n \<Rightarrow> v\<lparr>mode := n\<rparr>)
              in if mode v' < 0 \<or> mode v' > 5 then Inl (Exit 1) else Inr v'))
      else Inl (Exit 1))"

abbreviation optS :: string where "optS \<equiv> ''hfnda:w:t:T:m:c:g:''"

text \<open>\<^verbatim>\<open>while ((key = GetOpt (...)) != EOF) switch (key) ...\<close>. The loop ends: every call
  of \<^verbatim>\<open>GetOpt\<close> that returns an option letter has moved on in the command line.\<close>

function parse_options :: "(string \<Rightarrow> rat option) \<Rightarrow> string list \<Rightarrow> vars \<Rightarrow> getopt_state \<Rightarrow> outcome + (vars \<times> getopt_state)" where
  "parse_options scan_g argv v g =
     (case GetOpt argv optS g of
        (k, g') \<Rightarrow>
          if k = EOF then Inr (v\<lparr>key := k\<rparr>, g')
          else
            (case handle_option scan_g k (optarg g') (v\<lparr>key := k\<rparr>) of
               Inl out \<Rightarrow> Inl out
             | Inr v' \<Rightarrow> parse_options scan_g argv v' g'))"
  by pat_completeness auto
termination
proof (relation "measures [\<lambda>(sg, argv, v, g). length argv - optind g,
                           \<lambda>(sg, argv, v, g). (case letP g of
                                 Some l \<Rightarrow> length l
                               | None \<Rightarrow> (case arg_at argv (optind g) of
                                             None \<Rightarrow> 0 | Some a \<Rightarrow> Suc (length a)))]",
       goal_cases)
  case 1
  show ?case by simp
next
  case (2 scan_g argv v g k g' v')
  have tilde: "handle_option scan_g (of_char (CHR ''~'')) oa w = Inl (Exit 1)" for oa w
    by (simp add: handle_option_def)
  from 2 have k: "k \<noteq> of_char (CHR ''~'')" "k \<noteq> EOF"
    using tilde by auto
  from 2(1) k show ?case
    by (auto simp: GetOpt_def GetOpt_letter_def gopEOF_def gopError_def arg_at_def
             split: if_splits option.splits list.splits bool.splits)
qed

declare parse_options.simps [simp del]

subsection \<open>The outside world\<close>

text \<open>A \<^verbatim>\<open>FILE *\<close>: not opened (for \<^verbatim>\<open>gp\<close>, the null pointer it is initialised with),
  open with the text written so far, or closed with the text it received.\<close>

datatype fstate = Unopened | Opened string | Closed string

definition fputs :: "string \<Rightarrow> fstate \<Rightarrow> fstate" where
  "fputs s f = (case f of Opened c \<Rightarrow> Opened (c @ s) | _ \<Rightarrow> f)"

definition fclose :: "fstate \<Rightarrow> fstate" where
  "fclose f = (case f of Opened c \<Rightarrow> Closed c | _ \<Rightarrow> f)"

text \<open>\<^verbatim>\<open>pclose\<close> of the null pointer is undefined: \<^term>\<open>None\<close>.\<close>

definition pclose :: "fstate \<Rightarrow> fstate option" where
  "pclose f = (case f of Unopened \<Rightarrow> None | _ \<Rightarrow> Some (fclose f))"

text \<open>The messages \<^verbatim>\<open>main\<close> and \<^verbatim>\<open>inst_write\<close> print on \<^verbatim>\<open>stderr\<close> after the option
  loop, by their format string; the GPIB error and count numbers they show are left
  out.\<close>

datatype msg =
    Usage
  | NoDataFile
  | FileExists string
  | CannotOpen string
  | IbdevError int
  | SendError string
  | IdReadError
  | NoGnuplot
  | ReadError

record world =
  outfile :: fstate
  gp :: fstate
  popen_cmds :: "string list"
  tty_raw :: bool
  sent :: "string list"
  stderr_log :: "msg list"
  slept :: "int list"

definition init_world :: world where
  "init_world =
     \<lparr>outfile = Unopened, gp = Unopened, popen_cmds = [], tty_raw = False,
      sent = [], stderr_log = [], slept = []\<rparr>"

text \<open>What the outside answers. \<^verbatim>\<open>ibrd\<close> fails, or delivers bytes (\<^verbatim>\<open>ibcnt\<close> is their
  number). In one pass of the sampling loop: does \<^verbatim>\<open>ibwrt\<close> succeed, what does \<^verbatim>\<open>ibrd\<close>
  deliver, what does \<^verbatim>\<open>gettimeofday\<close> show, which character does the non-blocking
  \<^verbatim>\<open>read\<close> of \<^verbatim>\<open>kbhit\<close> find (\<^term>\<open>None\<close>: no key is pending) and which one would the
  blocking \<^verbatim>\<open>read\<close> of \<^verbatim>\<open>readch\<close> return (\<^term>\<open>None\<close>: it never returns).\<close>

datatype rd_result = RdErr | RdOk string

record timeval =
  tv_sec :: "64 word"
  tv_usec :: "64 word"

record sample_env =
  wrt_ok :: bool
  rd :: rd_result
  now :: timeval
  kb_nb :: "int option"
  kb_blk :: "int option"

record env =
  scan_g :: "string \<Rightarrow> rat option"
  file_exists :: bool
  answer :: int
  fopen_ok :: bool
  ibdev_ret :: int
  rst_ok :: bool
  idn_ok :: bool
  idn_rd :: rd_result
  disp_ok :: bool
  mode_ok :: bool
  popen_ok :: bool
  ctime_start :: string
  tv_start :: timeval
  samples :: "sample_env list"
  ctime_stop :: string
  disp_restore_ok :: bool
  pres_ok :: bool

subsection \<open>\<^verbatim>\<open>inst_write\<close>, \<^verbatim>\<open>ibrd\<close>, \<^verbatim>\<open>timeinfo\<close>, the keyboard\<close>

text \<open>\<^verbatim>\<open>inst_write\<close> hands the command to \<^verbatim>\<open>ibwrt\<close>; when the status has \<^verbatim>\<open>ERR\<close> it
  prints a message and returns 0.\<close>

definition inst_write :: "string \<Rightarrow> bool \<Rightarrow> world \<Rightarrow> bool \<times> world" where
  "inst_write cmd ok w =
     (if ok then (True, w\<lparr>sent := sent w @ [cmd]\<rparr>)
      else (False, w\<lparr>sent := sent w @ [cmd], stderr_log := stderr_log w @ [SendError cmd]\<rparr>))"

text \<open>\<^verbatim>\<open>ibrd (dvm, buf, cnt)\<close> stores at most \<open>cnt\<close> bytes; \<^term>\<open>None\<close> when the status
  has \<^verbatim>\<open>ERR\<close>.\<close>

definition ibrd :: "nat \<Rightarrow> rd_result \<Rightarrow> string option" where
  "ibrd cnt r = (case r of RdErr \<Rightarrow> None | RdOk d \<Rightarrow> Some (take cnt d))"

text \<open>\<^verbatim>\<open>buf[ibcnt-1] = 0x0\<close> and the C string that \<open>buf\<close> then holds. With no byte read
  the assignment is to \<^verbatim>\<open>buf[-1]\<close>: \<^term>\<open>None\<close>.\<close>

definition cut_last :: "string \<Rightarrow> string option" where
  "cut_last d = (if d = [] then None else Some (takeWhile (\<lambda>c. c \<noteq> NUL) (butlast d)))"

text \<open>\<^verbatim>\<open>(double)t.tv_sec + (double)t.tv_usec/1000000.0\<close>: two conversions, a division and
  a sum, each rounded.\<close>

definition timeinfo :: "timeval \<Rightarrow> rat" where
  "timeinfo t =
     to_double (to_double (of_int (sint (tv_sec t)))
                + to_double (to_double (of_int (sint (tv_usec t))) / 1000000))"

text \<open>\<^verbatim>\<open>init_keyboard\<close> puts the terminal into raw mode, \<^verbatim>\<open>close_keyboard\<close> restores
  it. \<^verbatim>\<open>kbhit\<close> and \<^verbatim>\<open>readch\<close> work on the static \<^verbatim>\<open>peek_character\<close>: they give the result
  and the new value of \<^verbatim>\<open>peek_character\<close>.\<close>

definition init_keyboard :: "world \<Rightarrow> world" where
  [simp]: "init_keyboard w = w\<lparr>tty_raw := True\<rparr>"

definition close_keyboard :: "world \<Rightarrow> world" where
  [simp]: "close_keyboard w = w\<lparr>tty_raw := False\<rparr>"

definition kbhit :: "int \<Rightarrow> int option \<Rightarrow> bool \<times> int" where
  "kbhit peek nb =
     (if peek \<noteq> - 1 then (True, peek)
      else (case nb of Some ch \<Rightarrow> (True, ch) | None \<Rightarrow> (False, peek)))"

definition readch :: "int \<Rightarrow> int option \<Rightarrow> (int \<times> int) option" where
  "readch peek blk =
     (if peek \<noteq> - 1 then Some (peek, - 1)
      else (case blk of Some ch \<Rightarrow> Some (ch, peek) | None \<Rightarrow> None))"

subsection \<open>Formatting with \<^verbatim>\<open>%.4f\<close>\<close>

function digits :: "nat \<Rightarrow> string" where
  "digits n = (if n < 10 then [char_of (48 + n)] else digits (n div 10) @ [char_of (48 + n mod 10)])"
  by pat_completeness auto
termination
  by (relation "measure id") auto

declare digits.simps [simp del]

text \<open>The value \<^verbatim>\<open>%.4f\<close> prints, in units of 0.0001, and its text: a minus sign for a
  negative number, the integer part, a point and four decimals.\<close>

definition round4 :: "rat \<Rightarrow> nat" where
  "round4 x = nat (round_half_even (\<bar>x\<bar> * 10000))"

definition fmt_f4 :: "rat \<Rightarrow> string" where
  "fmt_f4 x =
     (if x < 0 then ''-'' else []) @ digits (round4 x div 10000) @ ''.''
       @ replicate (4 - length (digits (round4 x mod 10000))) (CHR ''0'')
       @ digits (round4 x mod 10000)"

subsection \<open>\<^verbatim>\<open>main\<close> after the option loop\<close>

text \<open>Lines 205 to 233: the data file name, the overwrite prompt, \<^verbatim>\<open>fopen\<close>.\<close>

definition open_outfile :: "env \<Rightarrow> vars \<Rightarrow> world \<Rightarrow> (outcome \<times> world) + (vars \<times> world)" where
  "open_outfile E v w =
     (if fopen_ok E then Inr (v, w\<lparr>outfile := Opened []\<rparr>)
      else Inl (Exit ERR_FILE, w\<lparr>stderr_log := stderr_log w @ [CannotOpen (filename v)]\<rparr>))"

definition prepare_output :: "string list \<Rightarrow> env \<Rightarrow> vars \<Rightarrow> getopt_state \<Rightarrow> world \<Rightarrow> (outcome \<times> world) + (vars \<times> world)" where
  "prepare_output argv E v g w =
     (case arg_at argv (optind g) of
        None \<Rightarrow> Inl (Exit 1, w\<lparr>stderr_log := stderr_log w @ [Usage, NoDataFile]\<rparr>)
      | Some a \<Rightarrow>
          if MAXLEN \<le> length a then Inl (Fault OutOfBounds, w)
          else if file_exists E \<and> \<not> do_overwrite v then
            (if answer E = of_char (CHR ''Y'') \<or> answer E = of_char (CHR ''y'')
             then open_outfile E (v\<lparr>filename := a, key := answer E\<rparr>)
                    (w\<lparr>stderr_log := stderr_log w @ [FileExists a]\<rparr>)
             else Inl (Exit 1, w\<lparr>stderr_log := stderr_log w @ [FileExists a]\<rparr>))
          else open_outfile E (v\<lparr>filename := a\<rparr>) w)"

text \<open>Lines 128 to 131: the SCPI function names and the gnuplot axis labels.\<close>

definition scpi_mode :: "string list" where
  "scpi_mode = [''volt:dc'', ''curr:dc'', ''res'', ''temp'', ''cont'', ''diod'']"

definition ylabels :: "string list" where
  "ylabels = [''V'', ''mA'', ''Ohm'', ''degrees C'', ''Ohm'', ''mV'']"

text \<open>Lines 267 to 269: \<^verbatim>\<open>strcpy\<close> and two \<^verbatim>\<open>strcat\<close> into \<^verbatim>\<open>buffer\<close>.\<close>

definition mode_command :: "int \<Rightarrow> string" where
  "mode_command m = '':func '' @ [SQ] @ scpi_mode ! nat m @ [SQ] @ '';:init; *opc'' @ [LF]"

text \<open>Lines 237 to 274: open the device, reset it, read its identity, blank the display,
  select the measurement function.\<close>

definition select_mode :: "env \<Rightarrow> vars \<Rightarrow> world \<Rightarrow> (outcome \<times> world) + (vars \<times> world)" where
  "select_mode E v w =
     (if mode v < 0 \<or> 5 < mode v then Inl (Fault OutOfBounds, w)
      else
        (case inst_write (mode_command (mode v)) (mode_ok E) w of
           (ok, w') \<Rightarrow>
             if \<not> ok then Inl (Exit ERR_INST, w')
             else Inr (v\<lparr>buffer := mode_command (mode v)\<rparr>, w')))"

definition blank_display :: "env \<Rightarrow> vars \<Rightarrow> world \<Rightarrow> (outcome \<times> world) + (vars \<times> world)" where
  "blank_display E v w =
     (if \<not> do_display v then
        (case inst_write ('':DISP:TEXT:DATA '' @ [SQ] @ ''-ACQUIRING- '' @ [SQ] @ '';:DISP:TEXT:STAT 1'')
                (disp_ok E) w of
           (ok, w') \<Rightarrow> if \<not> ok then Inl (Exit ERR_INST, w') else select_mode E v w')
      else select_mode E v w)"

definition read_identity :: "env \<Rightarrow> vars \<Rightarrow> world \<Rightarrow> (outcome \<times> world) + (vars \<times> world)" where
  "read_identity E v w =
     (case inst_write ''*idn?'' (idn_ok E) w of
        (ok, w') \<Rightarrow>
          if \<not> ok then Inl (Exit ERR_INST, w')
          else
            (case ibrd (MAXLEN - 1) (idn_rd E) of
               None \<Rightarrow> Inl (Exit ERR_INST, w'\<lparr>stderr_log := stderr_log w' @ [IdReadError]\<rparr>)
             | Some d \<Rightarrow>
                 (case cut_last d of
                    None \<Rightarrow> Inl (Fault OutOfBounds, w')
                  | Some s \<Rightarrow> blank_display E (v\<lparr>inst := s\<rparr>) w')))"

definition connect :: "env \<Rightarrow> vars \<Rightarrow> world \<Rightarrow> (outcome \<times> world) + (vars \<times> world)" where
  "connect E v w =
     (if ibdev_ret E < 0 then
        (if do_graph v then
           (case pclose (gp w) of
              None \<Rightarrow> Inl (Fault NullStream, w\<lparr>stderr_log := stderr_log w @ [IbdevError (pad v)]\<rparr>)
            | Some f \<Rightarrow>
                Inl (Exit ERR_INST, w\<lparr>stderr_log := stderr_log w @ [IbdevError (pad v)], gp := f\<rparr>))
         else Inl (Exit ERR_INST, w\<lparr>stderr_log := stderr_log w @ [IbdevError (pad v)]\<rparr>))
      else
        (case inst_write ''*rst;*cls;:form:elem read,unit;*opc'' (rst_ok E) w of
           (ok, w') \<Rightarrow> if \<not> ok then Inl (Exit ERR_INST, w') else read_identity E v w'))"

text \<open>Lines 278 to 290: \<^verbatim>\<open>popen\<close> and the two set-up lines for gnuplot.\<close>

definition gnuplot_setup :: "vars \<Rightarrow> string" where
  "gnuplot_setup v =
     ''set mouse;set mouse labels; set style data lines; set title '' @ [SQ] @ filename v @ [SQ, LF]
     @ ''set grid xt; set grid yt; set xlabel 'min'; set ylabel '' @ [SQ] @ ylabels ! nat (mode v) @ [SQ, LF]"

definition start_gnuplot :: "env \<Rightarrow> vars \<Rightarrow> world \<Rightarrow> vars \<times> world" where
  "start_gnuplot E v w =
     (if popen_ok E then
        (if do_graph v
         then (v, w\<lparr>popen_cmds := popen_cmds w @ [''gnuplot''], gp := Opened (gnuplot_setup v)\<rparr>)
         else (v, w\<lparr>popen_cmds := popen_cmds w @ [''gnuplot''], gp := Opened []\<rparr>))
      else (v\<lparr>do_graph := False\<rparr>,
            w\<lparr>popen_cmds := popen_cmds w @ [''gnuplot''], gp := Unopened,
              stderr_log := stderr_log w @ [NoGnuplot]\<rparr>))"

text \<open>Lines 305 to 316: the file header, the start time, \<^verbatim>\<open>init_keyboard\<close>,
  \<^verbatim>\<open>key = 0\<close>. \<^verbatim>\<open>ctime\<close> ends its text with a line feed.\<close>

definition log_header :: "env \<Rightarrow> vars \<Rightarrow> string" where
  "log_header E v =
     ''# k2000 '' @ VERSION @ [LF]
     @ ''# Instrument: '' @ inst v @ [LF]
     @ ''# '' @ comment v @ [LF]
     @ ''# Acquisition start: '' @ ctime_start E
     @ ''# min'' @ [TAB] @ ''readout'' @ [LF]"

definition start_acquisition :: "env \<Rightarrow> vars \<Rightarrow> world \<Rightarrow> vars \<times> world" where
  "start_acquisition E v w =
     (v\<lparr>t0 := timeinfo (tv_start E), key := 0\<rparr>,
      init_keyboard (w\<lparr>outfile := fputs (log_header E v) (outfile w)\<rparr>))"

subsection \<open>The sampling loop\<close>

text \<open>Lines 337 and 338: the overflow reading.\<close>

definition overflow_subst :: "string \<Rightarrow> string" where
  "overflow_subst b = (if b = ''+9.9E37'' then ''OVERFLOW'' else b)"

text \<open>Line 342: \<^verbatim>\<open>(timeinfo()-t0)/60.0\<close>, a difference and a division, each rounded.\<close>

definition elapsed_min :: "vars \<Rightarrow> timeval \<Rightarrow> rat" where
  "elapsed_min v t = to_double (to_double (timeinfo t - t0 v) / 60)"

text \<open>Line 344: \<^verbatim>\<open>fprintf (outfile, "%.4f\t%s\n", t1, buffer)\<close>.\<close>

definition data_line :: "rat \<Rightarrow> string \<Rightarrow> string" where
  "data_line t1 b = fmt_f4 t1 @ [TAB] @ b @ [LF]"

definition plot_command :: "vars \<Rightarrow> string" where
  "plot_command v = ''plot '' @ [SQ] @ filename v @ [SQ] @ '' with lines title '' @ [SQ, SQ, LF]"

text \<open>How one pass through the body of the \<^verbatim>\<open>do\<close> loop ends: \<^verbatim>\<open>main\<close> returns (or
  faults), the loop is left by \<^verbatim>\<open>break\<close>, the end of the body is reached, or the pass
  never ends because \<^verbatim>\<open>readch\<close> waits for a key that does not come.\<close>

datatype step = Return outcome world | Break vars world | Next vars world | Blocked world

text \<open>The world at the end of a pass, or where the pass is stuck.\<close>

definition step_world :: "step \<Rightarrow> world" where
  "step_world s = (case s of Return out w \<Rightarrow> w | Break v w \<Rightarrow> w | Next v w \<Rightarrow> w | Blocked w \<Rightarrow> w)"

text \<open>Lines 362 to 364: \<^verbatim>\<open>if (kbhit ()) key = readch ();\<close>\<close>

definition poll_keyboard :: "vars \<Rightarrow> world \<Rightarrow> sample_env \<Rightarrow> step" where
  "poll_keyboard v w e =
     (case kbhit (peek_character v) (kb_nb e) of
        (hit, p) \<Rightarrow>
          if hit then
            (case readch p (kb_blk e) of
               None \<Rightarrow> Blocked w
             | Some (ch, p') \<Rightarrow> Next (v\<lparr>peek_character := p', key := ch\<rparr>) w)
          else Next (v\<lparr>peek_character := p\<rparr>) w)"

text \<open>Lines 351 to 360: every \<^verbatim>\<open>do_flush\<close> samples the file is flushed and gnuplot is told
  to draw it again. The \<^verbatim>\<open>int\<close> is converted to \<^verbatim>\<open>unsigned long\<close> for the remainder;
  a remainder by zero is undefined.\<close>

definition periodic_flush :: "vars \<Rightarrow> world \<Rightarrow> sample_env \<Rightarrow> step" where
  "periodic_flush v w e =
     (if (word_of_int (do_flush v) :: 64 word) = 0 then Return (Fault DivByZero) w
      else poll_keyboard v
             (if loop v mod word_of_int (do_flush v) = 0 \<and> do_graph v
              then w\<lparr>gp := fputs (plot_command v) (gp w)\<rparr> else w)
             e)"

text \<open>Lines 335 to 349: the reading is cut, replaced when it is the overflow value, and
  written with the elapsed time; the time limit sets \<^verbatim>\<open>key\<close>.\<close>

definition log_sample :: "vars \<Rightarrow> world \<Rightarrow> sample_env \<Rightarrow> string \<Rightarrow> step" where
  "log_sample v w e b =
     periodic_flush
       (v\<lparr>buffer := overflow_subst b, loop := loop v + 1,
          key := (if tstop v < elapsed_min v (now e) \<and> 0 < tstop v then ESC else key v)\<rparr>)
       (w\<lparr>outfile := fputs (data_line (elapsed_min v (now e)) (overflow_subst b)) (outfile w)\<rparr>)
       e"

text \<open>Lines 318 to 335: the delay, \<^verbatim>\<open>:read?\<close>, and the answer.\<close>

definition sleep :: "vars \<Rightarrow> world \<Rightarrow> world" where
  "sleep v w = (if 0 < delay v then w\<lparr>slept := slept w @ [delay v * 100000]\<rparr> else w)"

definition release_all :: "world \<Rightarrow> world" where
  "release_all w =
     close_keyboard
       (w\<lparr>gp := (if gp w = Unopened then gp w else fclose (gp w)),
          outfile := fclose (outfile w)\<rparr>)"

definition iteration :: "vars \<Rightarrow> world \<Rightarrow> sample_env \<Rightarrow> step" where
  "iteration v w e =
     (case inst_write '':read?'' (wrt_ok e) (sleep v w) of
        (ok, w') \<Rightarrow>
          if \<not> ok then Return (Exit ERR_INST) (release_all w')
          else
            (case ibrd 90 (rd e) of
               None \<Rightarrow> Break v (w'\<lparr>stderr_log := stderr_log w' @ [ReadError]\<rparr>)
             | Some d \<Rightarrow>
                 (case cut_last d of
                    None \<Rightarrow> Return (Fault OutOfBounds) w'
                  | Some b \<Rightarrow> log_sample v w' e b)))"

text \<open>The \<^verbatim>\<open>do ... while ((key != 'q') && (key != ESC))\<close> loop over the answers of the
  outside to its passes. \<^term>\<open>None\<close>: the loop has not ended with these answers. \<^term>\<open>Inl\<close>:
  \<^verbatim>\<open>main\<close> has returned from inside the loop. \<^term>\<open>Inr\<close>: the loop is left, the statement
  after it is next.\<close>

fun sampling :: "vars \<Rightarrow> world \<Rightarrow> sample_env list \<Rightarrow> ((outcome \<times> world) + (vars \<times> world)) option" where
  "sampling v w [] = None"
| "sampling v w (e # es) =
     (case iteration v w e of
        Blocked w' \<Rightarrow> None
      | Return out w' \<Rightarrow> Some (Inl (out, w'))
      | Break v' w' \<Rightarrow> Some (Inr (v', w'))
      | Next v' w' \<Rightarrow>
          if key v' \<noteq> of_char (CHR ''q'') \<and> key v' \<noteq> ESC then sampling v' w' es
          else Some (Inr (v', w')))"

subsection \<open>After the loop\<close>

definition log_trailer :: "env \<Rightarrow> string" where
  "log_trailer E = ''# Acquisition stop: '' @ ctime_stop E @ [LF]"

text \<open>Lines 376 to 386.\<close>

definition restore_instrument :: "env \<Rightarrow> vars \<Rightarrow> world \<Rightarrow> outcome \<times> world" where
  "restore_instrument E v w =
     (if \<not> do_display v then
        (case inst_write '':DISP:TEXT:STAT 0'' (disp_restore_ok E) w of
           (ok, w') \<Rightarrow>
             if \<not> ok then (Exit ERR_INST, w')
             else
               (case inst_write ''syst:pres'' (pres_ok E) w' of
                  (ok', w'') \<Rightarrow> if \<not> ok' then (Exit ERR_INST, w'') else (Exit 0, w'')))
      else
        (case inst_write ''syst:pres'' (pres_ok E) w of
           (ok', w'') \<Rightarrow> if \<not> ok' then (Exit ERR_INST, w'') else (Exit 0, w'')))"

text \<open>Lines 368 to 374: the trailer, \<^verbatim>\<open>fclose\<close>, \<^verbatim>\<open>close_keyboard\<close>, \<^verbatim>\<open>pclose\<close>.\<close>

definition stopping :: "env \<Rightarrow> vars \<Rightarrow> world \<Rightarrow> outcome \<times> world" where
  "stopping E v w =
     (if do_graph v then
        (case pclose (gp w) of
           None \<Rightarrow>
             (Fault NullStream,
              close_keyboard (w\<lparr>outfile := fclose (fputs (log_trailer E) (outfile w))\<rparr>))
         | Some f \<Rightarrow>
             restore_instrument E v
               ((close_keyboard (w\<lparr>outfile := fclose (fputs (log_trailer E) (outfile w))\<rparr>))
                  \<lparr>gp := f\<rparr>))
      else
        restore_instrument E v
          (close_keyboard (w\<lparr>outfile := fclose (fputs (log_trailer E) (outfile w))\<rparr>)))"

subsection \<open>\<^verbatim>\<open>main\<close>\<close>

text \<open>The loop followed by the shutdown.\<close>

definition acquire :: "env \<Rightarrow> vars \<Rightarrow> world \<Rightarrow> sample_env list \<Rightarrow> (outcome \<times> world) option" where
  "acquire E v w es =
     (case sampling v w es of
        None \<Rightarrow> None
      | Some (Inl r) \<Rightarrow> Some r
      | Some (Inr (v', w')) \<Rightarrow> Some (stopping E v' w'))"

text \<open>\<^verbatim>\<open>main\<close> up to the \<^verbatim>\<open>do\<close> loop: \<^term>\<open>Inl\<close> when it has returned before, \<^term>\<open>Inr\<close>
  with the variables and the world the loop starts in.\<close>

definition instrument_setup :: "env \<Rightarrow> vars \<Rightarrow> world \<Rightarrow> (outcome \<times> world) + (vars \<times> world)" where
  "instrument_setup E v w =
     (case connect E v w of
        Inl r \<Rightarrow> Inl r
      | Inr (v2, w2) \<Rightarrow>
          (case start_gnuplot E v2 w2 of (v3, w3) \<Rightarrow> Inr (start_acquisition E v3 w3)))"

definition startup :: "string list \<Rightarrow> env \<Rightarrow> (outcome \<times> world) + (vars \<times> world)" where
  "startup argv E =
     (case parse_options (scan_g E) argv init_vars init_getopt of
        Inl out \<Rightarrow> Inl (out, init_world)
      | Inr (v, g) \<Rightarrow>
          (case prepare_output argv E v g init_world of
             Inl r \<Rightarrow> Inl r
           | Inr (v1, w1) \<Rightarrow> instrument_setup E v1 w1))"

text \<open>The whole program: the result of a run with command line \<open>argv\<close> against the
  outside \<open>E\<close>, or \<^term>\<open>None\<close> when it does not end.\<close>

definition k2000_main :: "string list \<Rightarrow> env \<Rightarrow> (outcome \<times> world) option" where
  "k2000_main argv E =
     (case startup argv E of
        Inl r \<Rightarrow> Some r
      | Inr (v, w) \<Rightarrow> acquire E v w (samples E))"

subsection \<open>Notions used to state the properties\<close>

text \<open>The state after a number of passes through the loop body, each of which reaches
  the end of the body with a key that lets the loop go on; \<^term>\<open>None\<close> otherwise.\<close>

fun passes :: "vars \<Rightarrow> world \<Rightarrow> sample_env list \<Rightarrow> (vars \<times> world) option" where
  "passes v w [] = Some (v, w)"
| "passes v w (e # es) =
     (case iteration v w e of
        Next v' w' \<Rightarrow>
          if key v' \<noteq> of_char (CHR ''q'') \<and> key v' \<noteq> ESC then passes v' w' es else None
      | _ \<Rightarrow> None)"

text \<open>What holds of the variables and the world whenever the loop body is entered.\<close>

definition sampling_inv :: "vars \<Rightarrow> world \<Rightarrow> bool" where
  "sampling_inv v w =
     ((case outfile w of Opened c \<Rightarrow> True | _ \<Rightarrow> False)
      \<and> (do_graph v \<longrightarrow> (case gp w of Opened c \<Rightarrow> True | _ \<Rightarrow> False))
      \<and> tty_raw w \<and> peek_character v = - 1)"

text \<open>A text ends with another.\<close>

definition ends_with :: "string \<Rightarrow> string \<Rightarrow> bool" where
  "ends_with s c = (length s \<le> length c \<and> drop (length c - length s) c = s)"

text \<open>The command template and the tables of the interface description: mode index,
  SCPI token, axis label.\<close>

definition spec_token :: "int \<Rightarrow> string" where
  "spec_token m =
     (if m = 0 then ''volt:dc'' else if m = 1 then ''curr:dc'' else if m = 2 then ''res''
      else if m = 3 then ''temp'' else if m = 4 then ''cont'' else if m = 5 then ''diod'' else [])"

definition spec_label :: "int \<Rightarrow> string" where
  "spec_label m =
     (if m = 0 then ''V'' else if m = 1 then ''mA'' else if m = 2 then ''Ohm''
      else if m = 3 then ''degrees C'' else if m = 4 then ''Ohm'' else if m = 5 then ''mV'' else [])"

definition spec_mode_command :: "int \<Rightarrow> string" where
  "spec_mode_command m = '':func '' @ [SQ] @ spec_token m @ [SQ] @ '';:init; *opc''"

text \<open>Reading a data line back: the text before the first tab and the text after it.\<close>

definition split_tab :: "string \<Rightarrow> string \<times> string" where
  "split_tab l = (takeWhile (\<lambda>c. c \<noteq> TAB) l, drop 1 (dropWhile (\<lambda>c. c \<noteq> TAB) l))"

text \<open>Reading a number printed with a decimal point back.\<close>

definition read_fixed :: "string \<Rightarrow> rat" where
  "read_fixed s =
     (let neg = (case s of [] \<Rightarrow> False | c # _ \<Rightarrow> c = CHR ''-'');
          body = (if neg then tl s else s);
          ip = takeWhile (\<lambda>c. c \<noteq> CHR ''.'') body;
          fp = drop 1 (dropWhile (\<lambda>c. c \<noteq> CHR ''.'') body)
      in (if neg then - 1 else 1) * (of_nat (dec_val ip) + of_nat (dec_val fp) / 10 ^ length fp))"

text \<open>The lines of a text, and the two fields of every line of a log that is not a
  comment line.\<close>

fun split_lines :: "string \<Rightarrow> string \<Rightarrow> string list" where
  "split_lines cur [] = (if cur = [] then [] else [rev cur])"
| "split_lines cur (c # cs) =
     (if c = LF then rev cur # split_lines [] cs else split_lines (c # cur) cs)"

definition log_fields :: "string \<Rightarrow> (string \<times> string) list" where
  "log_fields c =
     map split_tab
       (filter (\<lambda>l. (case l of [] \<Rightarrow> False | x # _ \<Rightarrow> x \<noteq> CHR ''#'')) (split_lines [] c))"

text \<open>The number that \<^verbatim>\<open>%.4f\<close> shows.\<close>

definition shown4 :: "rat \<Rightarrow> rat" where
  "shown4 x = (if x < 0 then - of_nat (round4 x) else of_nat (round4 x)) / 10000"

text \<open>The text a file holds.\<close>

definition file_text :: "fstate \<Rightarrow> string" where
  "file_text f = (case f of Unopened \<Rightarrow> [] | Opened c \<Rightarrow> c | Closed c \<Rightarrow> c)"

text \<open>A sample outside for concrete runs: no data file yet, an instrument that answers,
  gnuplot present, a reading one second after the start and the overflow reading one and a
  half seconds later, with the key \<open>q\<close> pressed during the second pass.\<close>

definition sample_at :: "string \<Rightarrow> 64 word \<Rightarrow> 64 word \<Rightarrow> int option \<Rightarrow> sample_env" where
  "sample_at r s us k =
     \<lparr>wrt_ok = True, rd = RdOk r, now = \<lparr>tv_sec = s, tv_usec = us\<rparr>, kb_nb = k, kb_blk = None\<rparr>"

definition demo_scan_g :: "string \<Rightarrow> rat option" where
  "demo_scan_g s = (if s = ''0.01'' then Some (1 / 100) else if s = ''2'' then Some 2 else None)"

definition demo_env :: env where
  "demo_env =
     \<lparr>scan_g = demo_scan_g, file_exists = False, answer = of_char (CHR ''n''), fopen_ok = True,
      ibdev_ret = 3, rst_ok = True, idn_ok = True,
      idn_rd = RdOk (''KEITHLEY INSTRUMENTS INC.,MODEL 2000,0,A01'' @ [LF]),
      disp_ok = True, mode_ok = True, popen_ok = True,
      ctime_start = ''Thu Oct 30 04:00:00 2026'' @ [LF],
      tv_start = \<lparr>tv_sec = 1000, tv_usec = 0\<rparr>,
      samples = [sample_at (''+1.2345E+00'' @ [LF]) 1001 0 None,
                 sample_at (''+9.9E37'' @ [LF]) 1002 500000 (Some (of_char (CHR ''q'')))],
      ctime_stop = ''Thu Oct 30 04:01:00 2026'' @ [LF],
      disp_restore_ok = True, pres_ok = True\<rparr>"

text \<open>A pass in which the reading cannot be read back.\<close>

definition read_fails :: sample_env where
  "read_fails =
     \<lparr>wrt_ok = True, rd = RdErr, now = \<lparr>tv_sec = 1003, tv_usec = 0\<rparr>, kb_nb = None, kb_blk = None\<rparr>"

text \<open>A pass in which the command cannot be sent.\<close>

definition send_fails :: sample_env where
  "send_fails =
     \<lparr>wrt_ok = False, rd = RdErr, now = \<lparr>tv_sec = 1003, tv_usec = 0\<rparr>, kb_nb = None, kb_blk = None\<rparr>"

text \<open>The header of the log in the sample run.\<close>

definition demo_header :: string where
  "demo_header =
     ''# k2000 V20170725'' @ [LF]
     @ ''# Instrument: KEITHLEY INSTRUMENTS INC.,MODEL 2000,0,A01'' @ [LF]
     @ ''# '' @ [LF]
     @ ''# Acquisition start: Thu Oct 30 04:00:00 2026'' @ [LF]
     @ ''# min'' @ [TAB] @ ''readout'' @ [LF]"

text \<open>A reading one second after the start while the key \<open>x\<close> is pending, and a reading
  two seconds after the start with no key pending.\<close>

definition late_with_key :: sample_env where
  "late_with_key = sample_at (''+1.0E+00'' @ [LF]) 1001 0 (Some (of_char (CHR ''x'')))"

definition late_without_key :: sample_env where
  "late_without_key = sample_at (''+2.0E+00'' @ [LF]) 1002 0 None"

text \<open>Two passes between which the wall clock is set back by thirty seconds, and a pass
  with the overflow reading.\<close>

definition clock_set_back :: "sample_env list" where
  "clock_set_back =
     [sample_at (''+1.0E+00'' @ [LF]) 1060 0 None,
      sample_at (''+2.0E+00'' @ [LF]) 1030 0 (Some (of_char (CHR ''q'')))]"

definition overflow_pass :: sample_env where
  "overflow_pass = sample_at (''+9.9E37'' @ [LF]) 1001 0 None"

section \<open>Properties\<close>

subsection \<open>What one pass through the loop does\<close>

lemmas step_defs = iteration_def log_sample_def periodic_flush_def poll_keyboard_def
  inst_write_def sleep_def release_all_def kbhit_def readch_def

lemma iteration_Next_outfile:
  assumes "iteration v w e = Next v' w'" "outfile w = Opened c"
  shows "\<exists>d b. ibrd 90 (rd e) = Some d \<and> cut_last d = Some b \<and>
     outfile w' = Opened (c @ data_line (elapsed_min v (now e)) (overflow_subst b))"
  using assms
  by (auto simp: step_defs fputs_def split: if_splits option.splits prod.splits)

lemma iteration_outfile:
  assumes "outfile w = Opened c"
  shows "outfile (step_world (iteration v w e)) =
     (if \<not> wrt_ok e then Closed c
      else case ibrd 90 (rd e) of
             None \<Rightarrow> Opened c
           | Some d \<Rightarrow>
               (case cut_last d of
                  None \<Rightarrow> Opened c
                | Some b \<Rightarrow> Opened (c @ data_line (elapsed_min v (now e)) (overflow_subst b))))"
  using assms
  by (auto simp: step_defs step_world_def fputs_def fclose_def split: if_splits option.splits prod.splits)

lemma iteration_Break_outfile:
  assumes "iteration v w e = Break v' w'"
  shows "outfile w' = outfile w"
  using assms
  by (auto simp: step_defs fputs_def split: if_splits option.splits prod.splits)

lemma sampling_Inr_outfile:
  "sampling v w es = Some (Inr (v', w')) \<Longrightarrow> outfile w = Opened c \<Longrightarrow> \<exists>d. outfile w' = Opened (c @ d)"
proof (induction es arbitrary: v w c)
  case Nil
  then show ?case by simp
next
  case (Cons e es)
  show ?case
  proof (cases "iteration v w e")
    case (Return out w1)
    with Cons.prems show ?thesis by simp
  next
    case (Break v1 w1)
    with Cons.prems iteration_Break_outfile[OF Break] show ?thesis by auto
  next
    case (Next v1 w1)
    from iteration_Next_outfile[OF Next Cons.prems(2)] obtain d1 where
      d1: "outfile w1 = Opened (c @ d1)" by blast
    show ?thesis
    proof (cases "key v1 \<noteq> of_char (CHR ''q'') \<and> key v1 \<noteq> ESC")
      case True
      with Cons.prems Next have "sampling v1 w1 es = Some (Inr (v', w'))" by simp
      from Cons.IH[OF this d1] show ?thesis by auto
    next
      case False
      with Cons.prems Next d1 show ?thesis by auto
    qed
  next
    case (Blocked w1)
    with Cons.prems show ?thesis by simp
  qed
qed

lemma stopping_outfile:
  "outfile w = Opened c \<Longrightarrow> outfile (snd (stopping E v w)) = Closed (c @ log_trailer E)"
  by (auto simp: stopping_def restore_instrument_def inst_write_def fputs_def fclose_def
      split: option.splits prod.splits)

lemma stopping_tty:
  "\<not> tty_raw (snd (stopping E v w))"
  by (auto simp: stopping_def restore_instrument_def inst_write_def
      split: option.splits prod.splits)


lemma sampling_inv_iff:
  "sampling_inv v w \<longleftrightarrow>
     (\<exists>c. outfile w = Opened c) \<and> (do_graph v \<longrightarrow> (\<exists>g. gp w = Opened g)) \<and> tty_raw w
     \<and> peek_character v = - 1"
  by (auto simp: sampling_inv_def split: fstate.splits)

lemma poll_keyboard_Next:
  assumes "poll_keyboard v w e = Next v' w'"
  shows "w' = w \<and> do_graph v' = do_graph v \<and> t0 v' = t0 v
     \<and> (peek_character v = - 1 \<longrightarrow> peek_character v' = - 1)"
  using assms
  by (auto simp: poll_keyboard_def kbhit_def readch_def split: if_splits option.splits prod.splits)

lemma periodic_flush_Next:
  assumes "periodic_flush v w e = Next v' w'"
  shows "outfile w' = outfile w \<and> tty_raw w' = tty_raw w
     \<and> (gp w' = gp w \<or> do_graph v \<and> gp w' = fputs (plot_command v) (gp w))
     \<and> do_graph v' = do_graph v \<and> t0 v' = t0 v
     \<and> (peek_character v = - 1 \<longrightarrow> peek_character v' = - 1)"
proof (cases "loop v mod word_of_int (do_flush v) = 0 \<and> do_graph v")
  case True
  with assms have "poll_keyboard v (w\<lparr>gp := fputs (plot_command v) (gp w)\<rparr>) e = Next v' w'"
    by (simp add: periodic_flush_def split: if_splits)
  from poll_keyboard_Next[OF this] True show ?thesis by simp
next
  case False
  then have "(if loop v mod word_of_int (do_flush v) = 0 \<and> do_graph v
              then w\<lparr>gp := fputs (plot_command v) (gp w)\<rparr> else w) = w"
    by auto
  with assms have "poll_keyboard v w e = Next v' w'"
    by (simp add: periodic_flush_def split: if_splits)
  from poll_keyboard_Next[OF this] show ?thesis by simp
qed

lemma iteration_Next:
  assumes "iteration v w e = Next v' w'"
  shows "\<exists>d b. wrt_ok e \<and> ibrd 90 (rd e) = Some d \<and> cut_last d = Some b
     \<and> periodic_flush
          (v\<lparr>buffer := overflow_subst b, loop := loop v + 1,
             key := (if tstop v < elapsed_min v (now e) \<and> 0 < tstop v then ESC else key v)\<rparr>)
          ((sleep v w)\<lparr>sent := sent w @ ['':read?''],
             outfile := fputs (data_line (elapsed_min v (now e)) (overflow_subst b)) (outfile w)\<rparr>)
          e = Next v' w'"
  using assms
  by (auto simp: iteration_def log_sample_def inst_write_def sleep_def
      split: if_splits option.splits)

lemma iteration_Next_inv:
  assumes "iteration v w e = Next v' w'" "sampling_inv v w"
  shows "sampling_inv v' w'"
proof -
  from iteration_Next[OF assms(1)] obtain b where
    F: "periodic_flush
          (v\<lparr>buffer := overflow_subst b, loop := loop v + 1,
             key := (if tstop v < elapsed_min v (now e) \<and> 0 < tstop v then ESC else key v)\<rparr>)
          ((sleep v w)\<lparr>sent := sent w @ ['':read?''],
             outfile := fputs (data_line (elapsed_min v (now e)) (overflow_subst b)) (outfile w)\<rparr>)
          e = Next v' w'"
    by blast
  from periodic_flush_Next[OF F] assms(2) show ?thesis
    by (auto simp: sampling_inv_iff fputs_def sleep_def)
qed

lemma passes_inv:
  "passes v w pre = Some (v', w') \<Longrightarrow> sampling_inv v w \<Longrightarrow> sampling_inv v' w'"
proof (induction pre arbitrary: v w)
  case Nil
  then show ?case by simp
next
  case (Cons e pre)
  then show ?case
    by (auto split: step.splits if_splits dest: iteration_Next_inv)
qed

lemma sampling_passes:
  "passes v w pre = Some (v', w') \<Longrightarrow> sampling v w (pre @ es) = sampling v' w' es"
proof (induction pre arbitrary: v w)
  case Nil
  then show ?case by simp
next
  case (Cons e pre)
  then show ?case
    by (auto split: step.splits if_splits)
qed

subsection \<open>What holds when the loop is entered\<close>


lemma handle_option_peek:
  "handle_option sg k oa v = Inr v' \<Longrightarrow> peek_character v' = peek_character v"
  by (auto simp: handle_option_def Let_def split: if_splits option.splits)

lemma handle_option_mode:
  "handle_option sg k oa v = Inr v' \<Longrightarrow> 0 \<le> mode v \<and> mode v \<le> 5 \<Longrightarrow> 0 \<le> mode v' \<and> mode v' \<le> 5"
  by (auto simp: handle_option_def Let_def split: if_splits option.splits)

lemma parse_options_peek:
  "parse_options sg argv v g = Inr (v', g') \<Longrightarrow> peek_character v' = peek_character v"
proof (induction sg argv v g rule: parse_options.induct)
  case (1 sg argv v g)
  obtain k g1 where G: "GetOpt argv optS g = (k, g1)" by (cases "GetOpt argv optS g")
  show ?case
  proof (cases "k = EOF")
    case True
    with "1.prems" G show ?thesis by (auto simp add: parse_options.simps)
  next
    case False
    with "1.prems" G obtain v1 where
      H: "handle_option sg k (optarg g1) (v\<lparr>key := k\<rparr>) = Inr v1"
      and P: "parse_options sg argv v1 g1 = Inr (v', g')"
      by (auto simp: parse_options.simps[of sg argv v g] split: sum.splits)
    from "1.IH"[OF G[symmetric] False H P] handle_option_peek[OF H]
    show ?thesis by simp
  qed
qed

lemma parse_options_mode:
  "parse_options sg argv v g = Inr (v', g') \<Longrightarrow> 0 \<le> mode v \<and> mode v \<le> 5 \<Longrightarrow> 0 \<le> mode v' \<and> mode v' \<le> 5"
proof (induction sg argv v g rule: parse_options.induct)
  case (1 sg argv v g)
  obtain k g1 where G: "GetOpt argv optS g = (k, g1)" by (cases "GetOpt argv optS g")
  show ?case
  proof (cases "k = EOF")
    case True
    with "1.prems" G show ?thesis by (auto simp add: parse_options.simps)
  next
    case False
    with "1.prems" G obtain v1 where
      H: "handle_option sg k (optarg g1) (v\<lparr>key := k\<rparr>) = Inr v1"
      and P: "parse_options sg argv v1 g1 = Inr (v', g')"
      by (auto simp: parse_options.simps[of sg argv v g] split: sum.splits)
    from handle_option_mode[OF H] "1.prems"(2) have "0 \<le> mode v1 \<and> mode v1 \<le> 5" by simp
    from "1.IH"[OF G[symmetric] False H P this]
    show ?thesis .
  qed
qed

lemma prepare_output_Inr:
  "prepare_output argv E v g init_world = Inr (v1, w1) \<Longrightarrow>
     outfile w1 = Opened [] \<and> gp w1 = Unopened \<and> popen_cmds w1 = [] \<and> sent w1 = []
     \<and> peek_character v1 = peek_character v \<and> mode v1 = mode v \<and> do_graph v1 = do_graph v
     \<and> do_display v1 = do_display v"
  by (auto simp: prepare_output_def open_outfile_def init_world_def
      split: option.splits if_splits)

lemma connect_Inr:
  "connect E v w = Inr (v1, w1) \<Longrightarrow>
     outfile w1 = outfile w \<and> gp w1 = gp w \<and> popen_cmds w1 = popen_cmds w \<and> tty_raw w1 = tty_raw w
     \<and> peek_character v1 = peek_character v \<and> mode v1 = mode v \<and> do_graph v1 = do_graph v
     \<and> do_display v1 = do_display v \<and> filename v1 = filename v"
  by (auto simp: connect_def read_identity_def blank_display_def select_mode_def inst_write_def
      split: option.splits if_splits prod.splits)

lemma startup_inv:
  assumes "startup argv E = Inr (v, w)"
  shows "sampling_inv v w"
proof -
  from assms obtain vp g where
    P: "parse_options (scan_g E) argv init_vars init_getopt = Inr (vp, g)"
    by (auto simp: startup_def split: sum.splits)
  with assms obtain v1 w1 where
    O: "prepare_output argv E vp g init_world = Inr (v1, w1)"
    and I: "instrument_setup E v1 w1 = Inr (v, w)"
    by (auto simp: startup_def split: sum.splits)
  from I obtain v2 w2 where
    C: "connect E v1 w1 = Inr (v2, w2)"
    and S: "start_acquisition E (fst (start_gnuplot E v2 w2)) (snd (start_gnuplot E v2 w2)) = (v, w)"
    by (auto simp: instrument_setup_def split: sum.splits prod.splits)
  from parse_options_peek[OF P] have "peek_character vp = - 1" by (simp add: init_vars_def)
  with prepare_output_Inr[OF O] connect_Inr[OF C]
  have "outfile w2 = Opened []" "peek_character v2 = - 1" by simp_all
  with S show ?thesis
    by (auto simp: sampling_inv_def start_acquisition_def start_gnuplot_def fputs_def
        split: if_splits)
qed

subsection \<open>Auxiliary facts\<close>

lemma Inr_projr: "\<not> isl x \<Longrightarrow> x = Inr (fst (projr x), snd (projr x))"
  by (cases x) auto

lemma Some_the: "x \<noteq> None \<Longrightarrow> x = Some (fst (the x), snd (the x))"
  by (cases x) auto

lemma iteration_read_error:
  assumes "wrt_ok e" "rd e = RdErr"
  shows "iteration v w e = Break v ((sleep v w)\<lparr>sent := sent w @ ['':read?''],
            stderr_log := stderr_log w @ [ReadError]\<rparr>)"
  using assms by (simp add: iteration_def inst_write_def ibrd_def sleep_def)

lemma restore_instrument_ok:
  assumes "disp_restore_ok E" "pres_ok E"
  shows "restore_instrument E v w =
     (Exit 0, w\<lparr>sent := sent w @ (if do_display v then [] else ['':DISP:TEXT:STAT 0'']) @ [''syst:pres'']\<rparr>)"
  using assms by (simp add: restore_instrument_def inst_write_def)

lemma iteration_send_error:
  assumes "\<not> wrt_ok e"
  shows "iteration v w e = Return (Exit ERR_INST)
     (release_all ((sleep v w)\<lparr>sent := sent w @ ['':read?''],
          stderr_log := stderr_log w @ [SendError '':read?'']\<rparr>))"
  using assms by (simp add: iteration_def inst_write_def sleep_def)

text \<open>The comment at line 335 takes the response to end with CR LF, of which the
  assignment removes the LF. With such a response the CR stays in \<^verbatim>\<open>buffer\<close>: the text
  logged ends with it, and the overflow value is not replaced, because \<^verbatim>\<open>strcmp\<close> compares
  the whole of \<^verbatim>\<open>buffer\<close> with \<^verbatim>\<open>+9.9E37\<close>.\<close>

lemma response_with_CR_LF:
  "outfile (step_world (iteration (init_vars\<lparr>t0 := 1000\<rparr>) (init_world\<lparr>outfile := Opened []\<rparr>)
              (sample_at (''+9.9E37'' @ [CR, LF]) 1001 0 None)))
     = Opened (''0.0167'' @ [TAB] @ ''+9.9E37'' @ [CR, LF])"
  by code_simp

lemma iteration_Break:
  "iteration v w e = Break v' w' \<Longrightarrow> wrt_ok e \<and> rd e = RdErr"
  by (auto simp: iteration_def log_sample_def periodic_flush_def poll_keyboard_def inst_write_def ibrd_def
      split: if_splits option.splits prod.splits rd_result.splits)

lemma sampling_Inr_cases:
  "sampling v w es = Some (Inr (v', w')) \<Longrightarrow>
     \<exists>pre e post v1 w1. es = pre @ e # post \<and> passes v w pre = Some (v1, w1)
       \<and> (iteration v1 w1 e = Break v' w'
           \<or> iteration v1 w1 e = Next v' w' \<and> (key v' = of_char (CHR ''q'') \<or> key v' = ESC))"
proof (induction es arbitrary: v w)
  case Nil
  then show ?case by simp
next
  case (Cons e es)
  show ?case
  proof (cases "iteration v w e")
    case (Return out w1)
    with Cons.prems show ?thesis by simp
  next
    case (Break v1 w1)
    with Cons.prems have "e # es = [] @ e # es \<and> passes v w [] = Some (v, w) \<and> iteration v w e = Break v' w'"
      by simp
    then show ?thesis by blast
  next
    case (Next v1 w1)
    show ?thesis
    proof (cases "key v1 \<noteq> of_char (CHR ''q'') \<and> key v1 \<noteq> ESC")
      case True
      with Cons.prems Next have "sampling v1 w1 es = Some (Inr (v', w'))" by simp
      from Cons.IH[OF this] obtain pre e' post v2 w2 where
        H: "es = pre @ e' # post" "passes v1 w1 pre = Some (v2, w2)"
           "iteration v2 w2 e' = Break v' w'
             \<or> iteration v2 w2 e' = Next v' w' \<and> (key v' = of_char (CHR ''q'') \<or> key v' = ESC)"
        by blast
      from H(1,2) Next True have "e # es = (e # pre) @ e' # post \<and> passes v w (e # pre) = Some (v2, w2)"
        by simp
      with H(3) show ?thesis by blast
    next
      case False
      with Cons.prems Next have
        "e # es = [] @ e # es \<and> passes v w [] = Some (v, w) \<and> iteration v w e = Next v' w'
          \<and> (key v' = of_char (CHR ''q'') \<or> key v' = ESC)"
        by auto
      then show ?thesis by blast
    qed
  next
    case (Blocked w1)
    with Cons.prems show ?thesis by simp
  qed
qed

lemma iteration_logged:
  assumes "wrt_ok e" "ibrd 90 (rd e) = Some d" "cut_last d = Some b"
  shows "iteration v w e =
     periodic_flush
       (v\<lparr>buffer := overflow_subst b, loop := loop v + 1,
          key := (if tstop v < elapsed_min v (now e) \<and> 0 < tstop v then ESC else key v)\<rparr>)
       ((sleep v w)\<lparr>sent := sent w @ ['':read?''],
          outfile := fputs (data_line (elapsed_min v (now e)) (overflow_subst b)) (outfile w)\<rparr>)
       e"
  using assms by (simp add: iteration_def inst_write_def log_sample_def sleep_def)

lemma connect_keeps_outfile:
  "connect E v w = Inl (out, w') \<Longrightarrow> outfile w' = outfile w"
  by (auto simp: connect_def read_identity_def blank_display_def select_mode_def inst_write_def
      split: option.splits if_splits prod.splits)

lemma time_limit_stops_loop:
  assumes "wrt_ok e" and "ibrd 90 (rd e) = Some d" and "cut_last d = Some b"
    and "(word_of_int (do_flush v) :: 64 word) \<noteq> 0"
    and "0 < tstop v" and "tstop v < elapsed_min v (now e)"
    and "peek_character v = - 1" and "kb_nb e = None"
  shows "\<exists>v' w'. sampling v w (e # es) = Some (Inr (v', w')) \<and> key v' = ESC \<and> loop v' = loop v + 1"
proof -
  let ?vt = "v\<lparr>buffer := overflow_subst b, loop := loop v + 1,
          key := (if tstop v < elapsed_min v (now e) \<and> 0 < tstop v then ESC else key v)\<rparr>"
  let ?w1 = "(sleep v w)\<lparr>sent := sent w @ ['':read?''],
          outfile := fputs (data_line (elapsed_min v (now e)) (overflow_subst b)) (outfile w)\<rparr>"
  let ?wt = "if loop ?vt mod word_of_int (do_flush ?vt) = 0 \<and> do_graph ?vt
             then ?w1\<lparr>gp := fputs (plot_command ?vt) (gp ?w1)\<rparr> else ?w1"
  have "iteration v w e = poll_keyboard ?vt ?wt e"
    using iteration_logged[OF assms(1,2,3)] assms(4) by (simp add: periodic_flush_def)
  also have "\<dots> = Next (?vt\<lparr>peek_character := - 1\<rparr>) ?wt"
    using assms(7,8) by (simp add: poll_keyboard_def kbhit_def)
  finally have "sampling v w (e # es) = Some (Inr (?vt\<lparr>peek_character := - 1\<rparr>, ?wt))"
    using assms(5,6) by simp
  moreover have "key (?vt\<lparr>peek_character := - 1\<rparr>) = ESC" using assms(5,6) by simp
  ultimately show ?thesis by (intro exI[of _ "?vt\<lparr>peek_character := - 1\<rparr>"] exI[of _ ?wt]) simp
qed

lemma mode_command_spec:
  assumes "0 \<le> m" "m \<le> 5"
  shows "mode_command m = spec_mode_command m @ [LF]" and "ylabels ! nat m = spec_label m"
proof -
  from assms have "m = 0 \<or> m = 1 \<or> m = 2 \<or> m = 3 \<or> m = 4 \<or> m = 5" by arith
  then show "mode_command m = spec_mode_command m @ [LF]" and "ylabels ! nat m = spec_label m"
    by (auto simp: mode_command_def spec_mode_command_def spec_token_def scpi_mode_def
        ylabels_def spec_label_def)
qed

lemma connect_Inr_sent:
  assumes "connect E v w = Inr (v', w')"
  shows "sent w' = sent w @ [''*rst;*cls;:form:elem read,unit;*opc'', ''*idn?'']
            @ (if do_display v then []
               else ['':DISP:TEXT:DATA '' @ [SQ] @ ''-ACQUIRING- '' @ [SQ] @ '';:DISP:TEXT:STAT 1''])
            @ [mode_command (mode v)]"
  using assms
  by (auto simp: connect_def read_identity_def blank_display_def select_mode_def inst_write_def
      split: option.splits if_splits prod.splits)

lemma iteration_popen_cmds:
  "iteration v w e = Next v' w' \<or> iteration v w e = Break v' w' \<or> iteration v w e = Return out w'
     \<Longrightarrow> popen_cmds w' = popen_cmds w"
  by (auto simp: iteration_def log_sample_def periodic_flush_def poll_keyboard_def inst_write_def
        sleep_def release_all_def
      split: if_splits option.splits prod.splits)

lemma sampling_popen_cmds:
  "sampling v w es = Some r \<Longrightarrow> popen_cmds (snd (case r of Inl x \<Rightarrow> x | Inr y \<Rightarrow> (Exit 0, snd y))) = popen_cmds w"
proof (induction es arbitrary: v w)
  case Nil
  then show ?case by simp
next
  case (Cons e es)
  show ?case
  proof (cases "iteration v w e")
    case (Return out w1)
    with Cons.prems iteration_popen_cmds[of v w e _ w1 out] show ?thesis by auto
  next
    case (Break v1 w1)
    with Cons.prems iteration_popen_cmds[of v w e v1 w1] show ?thesis by auto
  next
    case (Next v1 w1)
    with iteration_popen_cmds[of v w e v1 w1] have p: "popen_cmds w1 = popen_cmds w" by simp
    show ?thesis
    proof (cases "key v1 \<noteq> of_char (CHR ''q'') \<and> key v1 \<noteq> ESC")
      case True
      with Cons.prems Next have "sampling v1 w1 es = Some r" by simp
      from Cons.IH[OF this] p show ?thesis by simp
    next
      case False
      with Cons.prems Next p show ?thesis by auto
    qed
  next
    case (Blocked w1)
    with Cons.prems show ?thesis by simp
  qed
qed

lemma stopping_popen_cmds: "popen_cmds (snd (stopping E v w)) = popen_cmds w"
  by (auto simp: stopping_def restore_instrument_def inst_write_def split: option.splits)

lemma connect_Inl_popen_cmds: "connect E v w = Inl (out, w') \<Longrightarrow> popen_cmds w' = popen_cmds w"
  by (auto simp: connect_def read_identity_def blank_display_def select_mode_def inst_write_def
      split: option.splits if_splits prod.splits)

lemma prepare_output_Inl_popen_cmds:
  "prepare_output argv E v g init_world = Inl (out, w') \<Longrightarrow> popen_cmds w' = []"
  by (auto simp: prepare_output_def open_outfile_def init_world_def split: option.splits if_splits)

lemma startup_Inl_popen_cmds:
  assumes "startup argv E = Inl (out, w)"
  shows "popen_cmds w = []"
proof (cases "parse_options (scan_g E) argv init_vars init_getopt")
  case (Inl a)
  with assms show ?thesis by (auto simp: startup_def init_world_def)
next
  case (Inr p)
  obtain vp g where p: "p = (vp, g)" by (cases p)
  show ?thesis
  proof (cases "prepare_output argv E vp g init_world")
    case (Inl r)
    with assms Inr p have "prepare_output argv E vp g init_world = Inl (out, w)"
      by (simp add: startup_def)
    then show ?thesis by (rule prepare_output_Inl_popen_cmds)
  next
    case (Inr q)
    obtain v1 w1 where q: "q = (v1, w1)" by (cases q)
    from assms \<open>parse_options (scan_g E) argv init_vars init_getopt = Inr p\<close> p Inr q
    have "connect E v1 w1 = Inl (out, w)"
      by (auto simp: startup_def instrument_setup_def split: sum.splits prod.splits)
    from connect_Inl_popen_cmds[OF this] prepare_output_Inr[OF Inr[unfolded q]]
    show ?thesis by simp
  qed
qed

lemma startup_Inr_popen_cmds:
  assumes "startup argv E = Inr (v, w)"
  shows "popen_cmds w = [''gnuplot'']"
proof -
  from assms obtain vp g where
    P: "parse_options (scan_g E) argv init_vars init_getopt = Inr (vp, g)"
    by (auto simp: startup_def split: sum.splits)
  with assms obtain v1 w1 where
    O: "prepare_output argv E vp g init_world = Inr (v1, w1)"
    and I: "instrument_setup E v1 w1 = Inr (v, w)"
    by (auto simp: startup_def split: sum.splits)
  from I obtain v2 w2 where
    C: "connect E v1 w1 = Inr (v2, w2)"
    and S: "start_acquisition E (fst (start_gnuplot E v2 w2)) (snd (start_gnuplot E v2 w2)) = (v, w)"
    by (auto simp: instrument_setup_def split: sum.splits prod.splits)
  from prepare_output_Inr[OF O] connect_Inr[OF C] have "popen_cmds w2 = []" by simp
  with S show ?thesis
    by (auto simp: start_acquisition_def start_gnuplot_def split: if_splits)
qed

subsection \<open>Printing and reading back the elapsed time\<close>

lemma char_of_digit: "d < 10 \<Longrightarrow> of_char (char_of (48 + d :: nat)) = (48 + d :: nat)"
  by (simp add: of_char_of)

lemma digits_props:
  "digits n \<noteq> [] \<and> (\<forall>c \<in> set (digits n). isdigit c) \<and> dec_val (digits n) = n"
proof (induction n rule: digits.induct)
  case (1 n)
  show ?case
  proof (cases "n < 10")
    case True
    then have "digits n = [char_of (48 + n)]" by (simp add: digits.simps)
    with True char_of_digit[of n] show ?thesis
      by (simp add: isdigit_def dec_val_def digit_val_def)
  next
    case False
    then have d: "digits n = digits (n div 10) @ [char_of (48 + n mod 10)]"
      by (simp add: digits.simps)
    have m: "n mod 10 < 10" by simp
    from "1.IH"[OF False] d char_of_digit[OF m] show ?thesis
      by (simp add: isdigit_def dec_val_def digit_val_def)
  qed
qed

lemma digits_length: "n < 10 ^ k \<Longrightarrow> 0 < k \<Longrightarrow> length (digits n) \<le> k"
proof (induction n arbitrary: k rule: digits.induct)
  case (1 n)
  show ?case
  proof (cases "n < 10")
    case True
    then have "digits n = [char_of (48 + n)]" by (simp add: digits.simps)
    with "1.prems" show ?thesis by simp
  next
    case False
    then have d: "digits n = digits (n div 10) @ [char_of (48 + n mod 10)]"
      by (simp add: digits.simps)
    from False "1.prems" have k: "1 < k" by (cases "k = 1") auto
    then obtain j where j: "k = Suc j" "0 < j" by (cases k) auto
    with "1.prems" have "n div 10 < 10 ^ j" by (simp add: less_mult_imp_div_less mult.commute)
    from "1.IH"[OF False this j(2)] d j show ?thesis by simp
  qed
qed

lemma isdigit_not_special:
  "isdigit c \<Longrightarrow> c \<noteq> CHR ''.'' \<and> c \<noteq> CHR ''-'' \<and> c \<noteq> TAB \<and> c \<noteq> LF"
  by (auto simp: isdigit_def)

lemma isdigit_zero: "isdigit (CHR ''0'')"
  by (simp add: isdigit_def)

lemma dec_val_zeros: "dec_val (replicate j (CHR ''0'') @ ds) = dec_val ds"
  by (induction j) (simp_all add: dec_val_def digit_val_def)

text \<open>The four decimals.\<close>

lemma decimals:
  assumes "m < 10000"
  defines "F \<equiv> replicate (4 - length (digits m)) (CHR ''0'') @ digits m"
  shows "length F = 4" and "dec_val F = m" and "\<forall>c \<in> set F. isdigit c"
proof -
  from digits_length[of m 4] assms(1) have "length (digits m) \<le> 4" by simp
  then show "length F = 4" by (simp add: F_def)
  show "dec_val F = m" by (simp add: F_def dec_val_zeros digits_props)
  show "\<forall>c \<in> set F. isdigit c" using digits_props[of m] isdigit_zero by (auto simp: F_def)
qed

lemma fmt_f4_no_tab: "TAB \<notin> set (fmt_f4 x) \<and> LF \<notin> set (fmt_f4 x)"
proof -
  have "round4 x mod 10000 < 10000" by simp
  from decimals(3)[OF this] digits_props[of "round4 x div 10000"] isdigit_not_special
  show ?thesis by (auto simp: fmt_f4_def)
qed

lemma read_fixed_unsigned:
  assumes "I \<noteq> []" "\<forall>c \<in> set I. isdigit c" "\<forall>c \<in> set F. isdigit c"
  shows "read_fixed (I @ ''.'' @ F) = of_nat (dec_val I) + of_nat (dec_val F) / 10 ^ length F"
    and "read_fixed (''-'' @ I @ ''.'' @ F) = - (of_nat (dec_val I) + of_nat (dec_val F) / 10 ^ length F)"
proof -
  from assms(2) isdigit_not_special have nd: "\<forall>c \<in> set I. c \<noteq> CHR ''.''" by blast
  from assms(1) obtain a I' where I: "I = a # I'" by (cases I) auto
  with assms(2) isdigit_not_special have a: "a \<noteq> CHR ''-''" by auto
  have tw: "takeWhile (\<lambda>c. c \<noteq> CHR ''.'') (I @ CHR ''.'' # F) = I"
    using nd by (simp add: takeWhile_append2 del: takeWhile_append)
  have dw: "dropWhile (\<lambda>c. c \<noteq> CHR ''.'') (I @ CHR ''.'' # F) = CHR ''.'' # F"
    using nd by (simp add: dropWhile_append2)
  show "read_fixed (I @ ''.'' @ F) = of_nat (dec_val I) + of_nat (dec_val F) / 10 ^ length F"
    using I a tw dw by (simp add: read_fixed_def Let_def)
  show "read_fixed (''-'' @ I @ ''.'' @ F) = - (of_nat (dec_val I) + of_nat (dec_val F) / 10 ^ length F)"
    using tw dw by (simp add: read_fixed_def Let_def)
qed

lemma read_fixed_fmt_f4: "read_fixed (fmt_f4 x) = shown4 x"
proof -
  let ?n = "round4 x"
  let ?I = "digits (?n div 10000)"
  let ?F = "replicate (4 - length (digits (?n mod 10000))) (CHR ''0'') @ digits (?n mod 10000)"
  have m: "?n mod 10000 < 10000" by simp
  note D = decimals[OF m]
  note P = digits_props[of "?n div 10000"]
  have v: "(of_nat (dec_val ?I) + of_nat (dec_val ?F) / 10 ^ length ?F :: rat) = of_nat ?n / 10000"
  proof -
    have e: "?n = ?n div 10000 * 10000 + ?n mod 10000" by simp
    have "(of_nat ?n :: rat) = of_nat (?n div 10000) * 10000 + of_nat (?n mod 10000)"
      using arg_cong[OF e, of "of_nat :: nat \<Rightarrow> rat"]
      by (simp only: of_nat_add of_nat_mult of_nat_numeral)
    then have "(of_nat ?n / 10000 :: rat) = of_nat (?n div 10000) + of_nat (?n mod 10000) / 10000"
      by (simp add: field_simps)
    then show ?thesis using D(1,2) P by simp
  qed
  show ?thesis
  proof (cases "x < 0")
    case True
    then have "fmt_f4 x = ''-'' @ ?I @ ''.'' @ ?F" by (simp add: fmt_f4_def)
    with read_fixed_unsigned(2)[of ?I ?F] P D(3) v True show ?thesis
      by (simp add: shown4_def)
  next
    case False
    then have "fmt_f4 x = ?I @ ''.'' @ ?F" by (simp add: fmt_f4_def)
    with read_fixed_unsigned(1)[of ?I ?F] P D(3) v False show ?thesis
      by (simp add: shown4_def)
  qed
qed

lemma rhe_bounds: "\<lfloor>x\<rfloor> \<le> round_half_even x \<and> round_half_even x \<le> \<lfloor>x\<rfloor> + 1"
  by (simp add: round_half_even_def)

lemma rhe_mono:
  assumes "x \<le> y"
  shows "round_half_even x \<le> round_half_even y"
proof (cases "\<lfloor>x\<rfloor> < \<lfloor>y\<rfloor>")
  case True
  with rhe_bounds[of x] rhe_bounds[of y] show ?thesis by linarith
next
  case False
  with floor_mono[OF assms] have f: "\<lfloor>y\<rfloor> = \<lfloor>x\<rfloor>" by simp
  from assms have "x - of_int \<lfloor>x\<rfloor> \<le> y - of_int \<lfloor>x\<rfloor>" by simp
  then show ?thesis
    unfolding round_half_even_def f by (auto split: if_splits)
qed

lemma rhe_nonneg: "0 \<le> x \<Longrightarrow> 0 \<le> round_half_even x"
  using rhe_bounds[of x] by (simp add: order_trans[of 0 "\<lfloor>x\<rfloor>"])

lemma rhe_close: "\<bar>of_int (round_half_even x) - x\<bar> \<le> 1 / 2"
proof -
  have b: "of_int \<lfloor>x\<rfloor> \<le> x" "x < of_int \<lfloor>x\<rfloor> + 1" by linarith+
  consider "x - of_int \<lfloor>x\<rfloor> < 1 / 2" | "1 / 2 < x - of_int \<lfloor>x\<rfloor>" | "x - of_int \<lfloor>x\<rfloor> = 1 / 2"
    by linarith
  then show ?thesis
  proof cases
    case 1
    then have "round_half_even x = \<lfloor>x\<rfloor>" by (simp add: round_half_even_def)
    moreover have "\<bar>of_int \<lfloor>x\<rfloor> - x\<bar> \<le> 1 / 2" using 1 b by linarith
    ultimately show ?thesis by (simp only:)
  next
    case 2
    then have "round_half_even x = \<lfloor>x\<rfloor> + 1" by (simp add: round_half_even_def)
    moreover have "\<bar>of_int (\<lfloor>x\<rfloor> + 1) - x\<bar> \<le> 1 / 2" using 2 b by auto
    ultimately show ?thesis by (simp only:)
  next
    case 3
    then have "round_half_even x = \<lfloor>x\<rfloor> \<or> round_half_even x = \<lfloor>x\<rfloor> + 1"
      by (simp add: round_half_even_def)
    moreover have "\<bar>of_int \<lfloor>x\<rfloor> - x\<bar> \<le> 1 / 2" using 3 b by linarith
    moreover have "\<bar>of_int (\<lfloor>x\<rfloor> + 1) - x\<bar> \<le> 1 / 2" using 3 b by auto
    ultimately show ?thesis by (elim disjE) (simp_all only:)
  qed
qed

text \<open>Rounding to a binary format: the exponent found by \<^const>\<open>ilog2\<close> brackets the number,
  and rounding is monotone.\<close>

lemma pow2_powi: "pow2 e = 2 powi e"
  by (simp add: pow2_def power_int_def power_inverse field_simps)

lemma pow2_pos: "0 < pow2 e"
  by (simp add: pow2_powi)

lemma pow2_add: "pow2 (a + b) = pow2 a * pow2 b"
  by (simp add: pow2_powi power_int_add)

lemma pow2_mono: "a \<le> b \<Longrightarrow> pow2 a \<le> pow2 b"
  by (simp add: pow2_powi power_int_increasing)

lemma pow2_nat: "pow2 (int n) = 2 ^ n"
  by (simp add: pow2_def)

lemma bits_bounds:
  "0 < k \<Longrightarrow> 1 \<le> bits k \<and> 2 ^ nat (bits k - 1) \<le> k \<and> k < 2 ^ nat (bits k)"
proof (induction k rule: bits.induct)
  case (1 k)
  show ?case
  proof (cases "k div 2 = 0")
    case True
    with "1.prems" have k: "k = 1" by presburger
    have "bits 1 = 1" by (simp add: bits.simps)
    with k show ?thesis by simp
  next
    case False
    with "1.prems" have h: "0 < k div 2" by presburger
    from "1.prems" have n: "\<not> k \<le> 0" by simp
    from "1.IH"[OF n h] have IH: "1 \<le> bits (k div 2)"
      "2 ^ nat (bits (k div 2) - 1) \<le> k div 2" "k div 2 < 2 ^ nat (bits (k div 2))"
      by simp_all
    from n have b: "bits k = 1 + bits (k div 2)" by (simp add: bits.simps)
    from IH(1) have e: "nat (bits (k div 2)) = Suc (nat (bits (k div 2) - 1))" by simp
    from IH(2) have "2 * 2 ^ nat (bits (k div 2) - 1) \<le> k" by presburger
    moreover from IH(3) have "k < 2 * 2 ^ nat (bits (k div 2))" by presburger
    ultimately show ?thesis using b IH(1) e by (simp add: nat_add_distrib)
  qed
qed

lemma bits_rat:
  assumes "0 < k"
  shows "pow2 (bits k - 1) \<le> of_int k" and "of_int k < pow2 (bits k)"
proof -
  from bits_bounds[OF assms] have b: "1 \<le> bits k" "2 ^ nat (bits k - 1) \<le> k" "k < 2 ^ nat (bits k)"
    by simp_all
  have "pow2 (bits k - 1) = of_int (2 ^ nat (bits k - 1))" using b(1) by (simp add: pow2_def)
  also have "\<dots> \<le> of_int k" using b(2) by (simp only: of_int_le_iff)
  finally show "pow2 (bits k - 1) \<le> of_int k" .
  have "(of_int k :: rat) < of_int (2 ^ nat (bits k))" using b(3) by (simp only: of_int_less_iff)
  also have "\<dots> = pow2 (bits k)" using b(1) by (simp add: pow2_def)
  finally show "of_int k < pow2 (bits k)" .
qed

lemma ilog2_bounds:
  assumes "0 < x"
  shows "pow2 (ilog2 x) \<le> x \<and> x < pow2 (ilog2 x + 1)"
proof -
  obtain p q where pq: "quotient_of x = (p, q)" by (cases "quotient_of x")
  then have q: "0 < q" and x: "x = of_int p / of_int q"
    by (simp_all add: quotient_of_denom_pos quotient_of_div)
  with assms have p: "0 < p" by (simp add: zero_less_divide_iff)
  let ?d = "bits p - bits q"
  note P = bits_rat[OF p] and Q = bits_rat[OF q]
  have qpos: "(0 :: rat) < of_int q" using q by simp
  have up: "x < pow2 (?d + 1)"
  proof -
    have "of_int p < pow2 (bits p)" by (rule P(2))
    also have "pow2 (bits p) = pow2 (?d + 1) * pow2 (bits q - 1)"
      by (simp add: pow2_add[symmetric])
    also have "\<dots> \<le> pow2 (?d + 1) * of_int q"
      using Q(1) pow2_pos[of "?d + 1"] by (simp add: mult_left_mono)
    finally show ?thesis using qpos by (simp add: x pos_divide_less_eq)
  qed
  have lo: "pow2 (?d - 1) < x"
  proof -
    have "pow2 (?d - 1) * of_int q < pow2 (?d - 1) * pow2 (bits q)"
      using Q(2) pow2_pos[of "?d - 1"] by (simp add: mult_strict_left_mono)
    also have "\<dots> = pow2 (bits p - 1)" by (simp add: pow2_add[symmetric])
    also have "\<dots> \<le> of_int p" by (rule P(1))
    finally show ?thesis using qpos by (simp add: x pos_less_divide_eq)
  qed
  show ?thesis
  proof (cases "pow2 ?d \<le> x")
    case True
    then have "ilog2 x = ?d" by (simp add: ilog2_def pq)
    with True up show ?thesis by simp
  next
    case False
    then have "ilog2 x = ?d - 1" by (simp add: ilog2_def pq)
    with False lo show ?thesis by simp
  qed
qed

lemma ilog2_mono:
  assumes "0 < x" "x \<le> y"
  shows "ilog2 x \<le> ilog2 y"
proof (rule ccontr)
  assume "\<not> ilog2 x \<le> ilog2 y"
  then have "ilog2 y + 1 \<le> ilog2 x" by simp
  from pow2_mono[OF this] ilog2_bounds[of x] ilog2_bounds[of y] assms show False by simp
qed

lemma rhe_of_int: "round_half_even (of_int k) = k"
  by (simp add: round_half_even_def)

lemma rhe_minus: "round_half_even (- x) = - round_half_even x"
proof (cases "x = of_int \<lfloor>x\<rfloor>")
  case True
  have "round_half_even (of_int (- \<lfloor>x\<rfloor>)) = - round_half_even (of_int \<lfloor>x\<rfloor>)"
    by (simp only: rhe_of_int)
  moreover have "- x = of_int (- \<lfloor>x\<rfloor>)" using True by simp
  ultimately show ?thesis using True by metis
next
  case False
  then have lt: "of_int \<lfloor>x\<rfloor> < x" by (metis of_int_floor_le order_le_less)
  have up: "x < of_int \<lfloor>x\<rfloor> + 1" by linarith
  have f: "\<lfloor>- x\<rfloor> = - \<lfloor>x\<rfloor> - 1" using lt up by (intro floor_unique) auto
  consider "x - of_int \<lfloor>x\<rfloor> < 1 / 2" | "1 / 2 < x - of_int \<lfloor>x\<rfloor>" | "x - of_int \<lfloor>x\<rfloor> = 1 / 2"
    by linarith
  then show ?thesis
  proof cases
    case 1
    then have "round_half_even x = \<lfloor>x\<rfloor>" by (simp add: round_half_even_def)
    moreover from 1 have "1 / 2 < - x - of_int (- \<lfloor>x\<rfloor> - 1)" by simp
    then have "round_half_even (- x) = - \<lfloor>x\<rfloor> - 1 + 1"
      unfolding round_half_even_def f by (simp del: of_int_diff of_int_minus)
    ultimately show ?thesis by simp
  next
    case 2
    then have "round_half_even x = \<lfloor>x\<rfloor> + 1" by (simp add: round_half_even_def)
    moreover from 2 have "- x - of_int (- \<lfloor>x\<rfloor> - 1) < 1 / 2" by simp
    then have "round_half_even (- x) = - \<lfloor>x\<rfloor> - 1"
      unfolding round_half_even_def f by (simp del: of_int_diff of_int_minus)
    ultimately show ?thesis by simp
  next
    case 3
    then have a: "round_half_even x = (if even \<lfloor>x\<rfloor> then \<lfloor>x\<rfloor> else \<lfloor>x\<rfloor> + 1)"
      by (simp add: round_half_even_def)
    from 3 have "- x - of_int (- \<lfloor>x\<rfloor> - 1) = 1 / 2" by simp
    then have "round_half_even (- x) = (if even (- \<lfloor>x\<rfloor> - 1) then - \<lfloor>x\<rfloor> - 1 else - \<lfloor>x\<rfloor> - 1 + 1)"
      unfolding round_half_even_def f by (simp del: of_int_diff of_int_minus)
    with a show ?thesis by auto
  qed
qed

lemma pow2_add_nat: "pow2 (e + int n) = pow2 e * 2 ^ n"
  by (simp only: pow2_add pow2_nat)

lemma round_binary_minus: "round_binary p emin (- x) = - round_binary p emin x"
  by (simp add: round_binary_def rhe_minus)

lemma round_binary_nonneg:
  assumes "0 \<le> x"
  shows "0 \<le> round_binary p emin x"
proof -
  let ?u = "pow2 (max (ilog2 \<bar>x\<bar>) emin - int p + 1)"
  from assms pow2_pos[of "max (ilog2 \<bar>x\<bar>) emin - int p + 1"] have "0 \<le> x / ?u" by simp
  then have "0 \<le> \<lfloor>x / ?u\<rfloor>" by simp
  with rhe_bounds[of "x / ?u"] have "0 \<le> round_half_even (x / ?u)" by linarith
  with pow2_pos[of "max (ilog2 \<bar>x\<bar>) emin - int p + 1"] show ?thesis
    by (simp add: round_binary_def)
qed

lemma round_binary_mono_pos:
  assumes "0 < x" "x \<le> y" "0 < p"
  shows "round_binary p emin x \<le> round_binary p emin y"
proof -
  let ?ex = "max (ilog2 x) emin - int p + 1" and ?ey = "max (ilog2 y) emin - int p + 1"
  from assms have y: "0 < y" by simp
  from assms y have rx: "round_binary p emin x = of_int (round_half_even (x / pow2 ?ex)) * pow2 ?ex"
    and ry: "round_binary p emin y = of_int (round_half_even (y / pow2 ?ey)) * pow2 ?ey"
    by (simp_all add: round_binary_def)
  from ilog2_mono[OF assms(1,2)] have le: "?ex \<le> ?ey" by simp
  show ?thesis
  proof (cases "?ex = ?ey")
    case True
    from assms(2) pow2_pos[of ?ey] have "x / pow2 ?ey \<le> y / pow2 ?ey"
      by (simp add: divide_right_mono)
    from rhe_mono[OF this] pow2_pos[of ?ey] True show ?thesis
      by (simp add: rx ry)
  next
    case False
    with le have lt: "?ex + 1 \<le> ?ey" by simp
    then have "emin < ilog2 y" by auto
    then have ey: "?ey = ilog2 y - int p + 1" by simp
    have ex: "ilog2 x + 1 \<le> ?ex + int p" by simp
    have split: "pow2 (?ey + int p - 1) = 2 ^ (p - 1) * pow2 ?ey"
    proof -
      from assms(3) have "?ey + int p - 1 = ?ey + int (p - 1)" by simp
      then show ?thesis by (simp only: pow2_add_nat mult.commute)
    qed
    have "x < pow2 (ilog2 x + 1)" using ilog2_bounds[OF assms(1)] by simp
    also have "\<dots> \<le> pow2 (?ex + int p)" by (rule pow2_mono[OF ex])
    also have "\<dots> = pow2 ?ex * 2 ^ p" by (rule pow2_add_nat)
    finally have "x / pow2 ?ex < 2 ^ p"
      using pow2_pos[of ?ex] by (simp add: pos_divide_less_eq mult.commute)
    then have "\<lfloor>x / pow2 ?ex\<rfloor> < 2 ^ p" by (simp add: floor_less_iff)
    with rhe_bounds[of "x / pow2 ?ex"] have "round_half_even (x / pow2 ?ex) \<le> 2 ^ p" by linarith
    then have "(of_int (round_half_even (x / pow2 ?ex)) :: rat) \<le> of_int (2 ^ p)"
      by (simp only: of_int_le_iff)
    then have "(of_int (round_half_even (x / pow2 ?ex)) :: rat) \<le> 2 ^ p" by simp
    then have "round_binary p emin x \<le> 2 ^ p * pow2 ?ex"
      using pow2_pos[of ?ex] by (simp only: rx mult_right_mono less_imp_le)
    also have "\<dots> = pow2 (?ex + int p)" by (simp only: pow2_add_nat mult.commute)
    also have "\<dots> \<le> pow2 (?ey + int p - 1)" using lt by (intro pow2_mono) simp
    also have "\<dots> = 2 ^ (p - 1) * pow2 ?ey" by (rule split)
    also have "\<dots> \<le> round_binary p emin y"
    proof -
      have "pow2 (?ey + int p - 1) \<le> y" using ilog2_bounds[OF y] by (simp add: ey)
      then have "2 ^ (p - 1) \<le> y / pow2 ?ey"
        using pow2_pos[of ?ey] by (simp only: split pos_le_divide_eq)
      then have "2 ^ (p - 1) \<le> \<lfloor>y / pow2 ?ey\<rfloor>" by (simp add: le_floor_iff)
      with rhe_bounds[of "y / pow2 ?ey"] have "2 ^ (p - 1) \<le> round_half_even (y / pow2 ?ey)"
        by linarith
      then have "(of_int (2 ^ (p - 1)) :: rat) \<le> of_int (round_half_even (y / pow2 ?ey))"
        by (simp only: of_int_le_iff)
      then have "(2 ^ (p - 1) :: rat) \<le> of_int (round_half_even (y / pow2 ?ey))" by simp
      then show ?thesis using pow2_pos[of ?ey] by (simp only: ry mult_right_mono less_imp_le)
    qed
    finally show ?thesis .
  qed
qed

lemma round_binary_mono:
  assumes "x \<le> y" "0 < p"
  shows "round_binary p emin x \<le> round_binary p emin y"
proof -
  consider "0 < x" | "x \<le> 0" "0 \<le> y" | "y < 0" using assms(1) by linarith
  then show ?thesis
  proof cases
    case 1
    from round_binary_mono_pos[OF 1 assms] show ?thesis .
  next
    case 2
    from 2(1) have "0 \<le> round_binary p emin (- x)" by (intro round_binary_nonneg) simp
    then have "round_binary p emin x \<le> 0" by (simp add: round_binary_minus)
    with round_binary_nonneg[OF 2(2), of p emin] show ?thesis by linarith
  next
    case 3
    with assms have "0 < - y" "- y \<le> - x" by simp_all
    from round_binary_mono_pos[OF this assms(2)] show ?thesis
      by (simp add: round_binary_minus)
  qed
qed

lemma to_double_mono: "x \<le> y \<Longrightarrow> to_double x \<le> to_double y"
  by (simp add: to_double_def round_binary_mono)

lemma shown4_eq:
  "shown4 x = (if x < 0 then - of_int (round_half_even (- x * 10000)) else of_int (round_half_even (x * 10000))) / 10000"
proof -
  have "0 \<le> round_half_even (\<bar>x\<bar> * 10000)" by (rule rhe_nonneg) simp
  then have "(of_nat (round4 x) :: rat) = of_int (round_half_even (\<bar>x\<bar> * 10000))"
    by (simp add: round4_def)
  then show ?thesis by (simp add: shown4_def abs_if)
qed

lemma shown4_mono:
  assumes "x \<le> y"
  shows "shown4 x \<le> shown4 y"
proof -
  consider "y < 0" | "x < 0" "0 \<le> y" | "0 \<le> x" using assms by linarith
  then show ?thesis
  proof cases
    case 1
    with assms have "x < 0" "- y * 10000 \<le> - x * 10000" by simp_all
    with rhe_mono[of "- y * 10000" "- x * 10000"] 1 show ?thesis
      by (simp add: shown4_eq)
  next
    case 2
    have "0 \<le> round_half_even (- x * 10000)" using 2 by (intro rhe_nonneg) simp
    moreover have "0 \<le> round_half_even (y * 10000)" using 2 by (intro rhe_nonneg) simp
    ultimately show ?thesis using 2 by (simp add: shown4_eq)
  next
    case 3
    with assms have "0 \<le> y" "x * 10000 \<le> y * 10000" by simp_all
    with rhe_mono[of "x * 10000" "y * 10000"] 3 show ?thesis
      by (simp add: shown4_eq)
  qed
qed

lemma shown4_close: "\<bar>shown4 x - x\<bar> \<le> 1 / 20000"
proof (cases "x < 0")
  case True
  from rhe_close[of "- x * 10000"] True show ?thesis
    by (simp add: shown4_eq abs_if field_simps split: if_splits)
next
  case False
  from rhe_close[of "x * 10000"] False show ?thesis
    by (simp add: shown4_eq abs_if field_simps split: if_splits)
qed

lemma split_tab_line:
  assumes "TAB \<notin> set a"
  shows "split_tab (a @ [TAB] @ b) = (a, b)"
proof -
  from assms have n: "\<And>c. c \<in> set a \<Longrightarrow> c \<noteq> TAB" by auto
  have "takeWhile (\<lambda>c. c \<noteq> TAB) (a @ TAB # b) = a"
    using n by (simp add: takeWhile_append2 del: takeWhile_append)
  moreover have "dropWhile (\<lambda>c. c \<noteq> TAB) (a @ TAB # b) = TAB # b"
    using n by (simp add: dropWhile_append2)
  ultimately show ?thesis by (simp add: split_tab_def)
qed

section \<open>The claims\<close>

text \<open>
  Claim C1 says that whenever the program ends with exit code 5, every resource opened
  so far has been released, in particular that a failure to open the device or a failed
  send or identity read of the handshake closes the output file first. The code returns 5
  from the handshake with the output file still open: below, after a failed reset
  command, after a failed identity read, and after a failed \<^verbatim>\<open>ibdev\<close> with graphics
  switched off. (With graphics on, a failed \<^verbatim>\<open>ibdev\<close> passes the null pointer to
  \<^verbatim>\<open>pclose\<close>.) The pass of the sampling loop that cannot send \<^verbatim>\<open>:read?\<close> does release
  everything, see \<open>iteration_send_error\<close>; no path through \<^verbatim>\<open>connect\<close> closes the file,
  see \<open>connect_keeps_outfile\<close>.
\<close>

theorem C1_exit_5_with_file_open:
  "map_option (\<lambda>r. (fst r, outfile (snd r)))
      (k2000_main [''k2000'', ''out.dat''] (demo_env\<lparr>rst_ok := False\<rparr>))
     = Some (Exit ERR_INST, Opened [])
   \<and> map_option (\<lambda>r. (fst r, outfile (snd r)))
      (k2000_main [''k2000'', ''out.dat''] (demo_env\<lparr>idn_rd := RdErr\<rparr>))
     = Some (Exit ERR_INST, Opened [])
   \<and> map_option (\<lambda>r. (fst r, outfile (snd r)))
      (k2000_main [''k2000'', ''-n'', ''out.dat''] (demo_env\<lparr>ibdev_ret := - 1\<rparr>))
     = Some (Exit ERR_INST, Opened [])
   \<and> map_option (\<lambda>r. (fst r, outfile (snd r)))
      (k2000_main [''k2000'', ''out.dat''] (demo_env\<lparr>ibdev_ret := - 1\<rparr>))
     = Some (Fault NullStream, Opened [])"
  by code_simp

text \<open>
  Claim C2 says that on every way out of the sampling loop (user quit, time limit, failed
  read-back, failed send) the shutdown writes the trailer line with the stop time before
  the file is closed. That fails for a failed send: \<^verbatim>\<open>main\<close> then closes the file as it is
  and returns 5. In the sample run below the first \<^verbatim>\<open>:read?\<close> cannot be sent; the file is
  closed holding the header only, which does not end with the trailer (the line
  \<^verbatim>\<open># Acquisition stop: \<close> with the stop time as \<^verbatim>\<open>ctime\<close> prints it, and an empty line).
\<close>

theorem C2_counterexample:
  "map_option fst (k2000_main [''k2000'', ''out.dat''] (demo_env\<lparr>samples := [send_fails]\<rparr>))
     = Some (Exit ERR_INST)
   \<and> map_option (\<lambda>r. outfile (snd r)) (k2000_main [''k2000'', ''out.dat''] (demo_env\<lparr>samples := [send_fails]\<rparr>))
     = Some (Closed demo_header)
   \<and> ctime_stop (demo_env\<lparr>samples := [send_fails]\<rparr>) = ''Thu Oct 30 04:01:00 2026'' @ [LF]
   \<and> \<not> ends_with (''# Acquisition stop: Thu Oct 30 04:01:00 2026'' @ [LF, LF]) demo_header"
  by code_simp

text \<open>
  Claim C2, amended. When the loop is left by its condition (the key is \<open>q\<close> or ESC, set by
  the user or by the time limit) or by \<^verbatim>\<open>break\<close> (failed read-back), the shutdown runs: the
  line \<^verbatim>\<open># Acquisition stop: \<close> followed by the stop time as \<^verbatim>\<open>ctime\<close> prints it, and a line
  feed, is appended to what the file holds, the file is closed and the terminal is
  restored, whatever the shutdown returns. When \<^verbatim>\<open>:read?\<close> cannot be sent in some pass,
  the shutdown does not run: nothing is written to the file and no command is sent to
  the instrument after the failed \<^verbatim>\<open>:read?\<close>; the failure is reported on the error stream,
  the plotter's pipe is closed when there is one, the file is closed with what it holds,
  the terminal is restored, and the exit code is 5.
\<close>

theorem C2_trailer_unless_send_fails:
  assumes "startup argv E = Inr (v0, w0)"
  shows "(\<forall>v' w'. sampling v0 w0 (samples E) = Some (Inr (v', w')) \<longrightarrow>
            (\<exists>c out wf. outfile w' = Opened c \<and> k2000_main argv E = Some (out, wf)
               \<and> outfile wf = Closed (c @ ''# Acquisition stop: '' @ ctime_stop E @ [LF])
               \<and> \<not> tty_raw wf))
       \<and> (\<forall>pre e post v w. samples E = pre @ e # post \<and> passes v0 w0 pre = Some (v, w) \<and> \<not> wrt_ok e \<longrightarrow>
            (\<exists>c wf. outfile w = Opened c \<and> k2000_main argv E = Some (Exit ERR_INST, wf)
               \<and> outfile wf = Closed c
               \<and> \<not> tty_raw wf
               \<and> gp wf = (case gp w of Unopened \<Rightarrow> Unopened | Opened g \<Rightarrow> Closed g | Closed g \<Rightarrow> Closed g)
               \<and> sent wf = sent w @ ['':read?'']
               \<and> stderr_log wf = stderr_log w @ [SendError '':read?'']))"
proof (intro conjI allI impI)
  fix v' w'
  assume S: "sampling v0 w0 (samples E) = Some (Inr (v', w'))"
  from startup_inv[OF assms] obtain c0 where "outfile w0 = Opened c0"
    by (auto simp: sampling_inv_iff)
  from sampling_Inr_outfile[OF S this] obtain c where c: "outfile w' = Opened c" by blast
  from S assms have "k2000_main argv E = Some (stopping E v' w')"
    by (simp add: k2000_main_def acquire_def)
  then have "k2000_main argv E = Some (fst (stopping E v' w'), snd (stopping E v' w'))" by simp
  with c stopping_outfile[OF c, of E v'] stopping_tty[of E v' w']
  show "\<exists>c out wf. outfile w' = Opened c \<and> k2000_main argv E = Some (out, wf)
               \<and> outfile wf = Closed (c @ ''# Acquisition stop: '' @ ctime_stop E @ [LF])
               \<and> \<not> tty_raw wf"
    unfolding log_trailer_def by blast
next
  fix pre e post v w
  assume H: "samples E = pre @ e # post \<and> passes v0 w0 pre = Some (v, w) \<and> \<not> wrt_ok e"
  from startup_inv[OF assms] passes_inv[of v0 w0 pre v w] H have "sampling_inv v w" by simp
  then obtain c where c: "outfile w = Opened c" by (auto simp: sampling_inv_iff)
  have "sampling v0 w0 (samples E) = sampling v w (e # post)"
    using sampling_passes[of v0 w0 pre v w] H by simp
  with iteration_send_error[of e v w] H assms c
  show "\<exists>c wf. outfile w = Opened c \<and> k2000_main argv E = Some (Exit ERR_INST, wf)
               \<and> outfile wf = Closed c
               \<and> \<not> tty_raw wf
               \<and> gp wf = (case gp w of Unopened \<Rightarrow> Unopened | Opened g \<Rightarrow> Closed g | Closed g \<Rightarrow> Closed g)
               \<and> sent wf = sent w @ ['':read?'']
               \<and> stderr_log wf = stderr_log w @ [SendError '':read?'']"
    by (simp add: k2000_main_def acquire_def release_all_def fclose_def sleep_def
        split: fstate.splits)
qed

text \<open>
  Both parts on the sample run. When the first reading cannot be read back, the file is
  closed holding the header and the trailer. When the first \<^verbatim>\<open>:read?\<close> cannot be sent, the
  file is closed holding the header only, the plotter's pipe is closed, the terminal is
  restored, and \<^verbatim>\<open>:read?\<close> is the last command sent.
\<close>

theorem C2_witness:
  "map_option (\<lambda>r. (outfile (snd r), tty_raw (snd r)))
      (k2000_main [''k2000'', ''out.dat''] (demo_env\<lparr>samples := [read_fails]\<rparr>))
     = Some (Closed (demo_header @ ''# Acquisition stop: Thu Oct 30 04:01:00 2026'' @ [LF, LF]), False)
   \<and> map_option (\<lambda>r. (fst r, outfile (snd r), tty_raw (snd r), sent (snd r), stderr_log (snd r)))
      (k2000_main [''k2000'', ''out.dat''] (demo_env\<lparr>samples := [send_fails]\<rparr>))
     = Some (Exit ERR_INST, Closed demo_header, False,
             [''*rst;*cls;:form:elem read,unit;*opc'', ''*idn?'',
              '':func 'volt:dc';:init; *opc'' @ [LF], '':read?''],
             [SendError '':read?''])
   \<and> (\<exists>g. map_option (\<lambda>r. gp (snd r))
      (k2000_main [''k2000'', ''out.dat''] (demo_env\<lparr>samples := [send_fails]\<rparr>))
     = Some (Closed g))"
proof -
  let ?argv = "[''k2000'', ''out.dat'']"
  let ?E = "demo_env\<lparr>samples := [read_fails]\<rparr>"
  let ?s = "startup ?argv ?E"
  let ?v0 = "fst (projr ?s)" and ?w0 = "snd (projr ?s)"
  let ?r = "projr (the (sampling ?v0 ?w0 [read_fails]))"
  have "\<not> isl ?s" by code_simp
  then have 1: "?s = Inr (?v0, ?w0)" by (rule Inr_projr)
  have 2: "sampling ?v0 ?w0 (samples ?E) = Some (Inr (fst ?r, snd ?r))" by code_simp
  have 3: "outfile (snd ?r) = Opened demo_header" by code_simp
  have ct: "ctime_stop ?E = ''Thu Oct 30 04:01:00 2026'' @ [LF]" by (simp add: demo_env_def)
  from C2_trailer_unless_send_fails[OF 1, THEN conjunct1, rule_format, OF 2]
  obtain c out wf where
    "outfile (snd ?r) = Opened c" "k2000_main ?argv ?E = Some (out, wf)"
    "outfile wf = Closed (c @ ''# Acquisition stop: '' @ ctime_stop ?E @ [LF])"
    "\<not> tty_raw wf"
    by blast
  with 3 have A: "map_option (\<lambda>r. (outfile (snd r), tty_raw (snd r))) (k2000_main ?argv ?E)
      = Some (Closed (demo_header @ ''# Acquisition stop: Thu Oct 30 04:01:00 2026'' @ [LF, LF]), False)"
    unfolding ct by simp
  let ?argw = "[''k2000'', ''out.dat'']"
  let ?F = "demo_env\<lparr>samples := [send_fails]\<rparr>"
  let ?t = "startup ?argw ?F"
  let ?x0 = "fst (projr ?t)" and ?y0 = "snd (projr ?t)"
  have "\<not> isl ?t" by code_simp
  then have 4: "?t = Inr (?x0, ?y0)" by (rule Inr_projr)
  have 5: "samples ?F = [] @ send_fails # [] \<and> passes ?x0 ?y0 [] = Some (?x0, ?y0) \<and> \<not> wrt_ok send_fails"
    by (simp add: send_fails_def)
  have 6: "outfile ?y0 = Opened demo_header" by code_simp
  have 7: "sent ?y0 = [''*rst;*cls;:form:elem read,unit;*opc'', ''*idn?'',
              '':func 'volt:dc';:init; *opc'' @ [LF]]"
    by code_simp
  have 8: "stderr_log ?y0 = []" by code_simp
  have "case gp ?y0 of Opened g \<Rightarrow> True | _ \<Rightarrow> False" by code_simp
  then have 9: "\<exists>g. gp ?y0 = Opened g" by (cases "gp ?y0") simp_all
  from C2_trailer_unless_send_fails[OF 4, THEN conjunct2, rule_format, OF 5]
  obtain c' wf' where *:
    "outfile ?y0 = Opened c'" "k2000_main ?argw ?F = Some (Exit ERR_INST, wf')"
    "outfile wf' = Closed c'" "\<not> tty_raw wf'"
    "gp wf' = (case gp ?y0 of Unopened \<Rightarrow> Unopened | Opened g \<Rightarrow> Closed g | Closed g \<Rightarrow> Closed g)"
    "sent wf' = sent ?y0 @ ['':read?'']"
    "stderr_log wf' = stderr_log ?y0 @ [SendError '':read?'']"
    by blast
  from * 6 7 8 have B: "map_option (\<lambda>r. (fst r, outfile (snd r), tty_raw (snd r), sent (snd r), stderr_log (snd r)))
      (k2000_main ?argw ?F)
     = Some (Exit ERR_INST, Closed demo_header, False,
             [''*rst;*cls;:form:elem read,unit;*opc'', ''*idn?'',
              '':func 'volt:dc';:init; *opc'' @ [LF], '':read?''],
             [SendError '':read?''])"
    by simp
  from 9 obtain g0 where "gp ?y0 = Opened g0" by blast
  with * have C: "\<exists>g. map_option (\<lambda>r. gp (snd r)) (k2000_main ?argw ?F) = Some (Closed g)"
    by simp
  from A B C show ?thesis by blast
qed

text \<open>
  Claim C3. If reading back a sample response fails, the program logs an error, leaves the
  sampling loop and goes through the normal shutdown: the trailer (the line
  \<^verbatim>\<open># Acquisition stop: \<close> with the stop time as \<^verbatim>\<open>ctime\<close> prints it, and a line feed) is
  written, the file is closed, the terminal is restored, the plotter's pipe is closed,
  the display is restored when it was blanked, the preset is restored. When the shutdown
  commands succeed the exit code is 0, not 5.
  Here the failing pass is any pass of a run: \<open>pre\<close> are the passes before it, \<open>v\<close> and
  \<open>w\<close> the variables and the world it starts in.
\<close>

theorem C3_read_failure_exit_0:
  assumes "startup argv E = Inr (v0, w0)"
    and "samples E = pre @ e # post"
    and "passes v0 w0 pre = Some (v, w)"
    and "wrt_ok e" and "rd e = RdErr"
    and "disp_restore_ok E" and "pres_ok E"
  shows "\<exists>c wf. outfile w = Opened c
     \<and> k2000_main argv E = Some (Exit 0, wf)
     \<and> stderr_log wf = stderr_log w @ [ReadError]
     \<and> outfile wf = Closed (c @ ''# Acquisition stop: '' @ ctime_stop E @ [LF])
     \<and> \<not> tty_raw wf
     \<and> (do_graph v \<longrightarrow> (\<exists>g. gp wf = Closed g))
     \<and> sent wf = sent w @ ['':read?''] @ (if do_display v then [] else ['':DISP:TEXT:STAT 0''])
                    @ [''syst:pres'']"
proof -
  from startup_inv[OF assms(1)] passes_inv[OF assms(3)] have inv: "sampling_inv v w" by simp
  then obtain c where c: "outfile w = Opened c"
    and g: "do_graph v \<longrightarrow> (\<exists>g. gp w = Opened g)"
    by (auto simp: sampling_inv_iff)
  let ?wb = "(sleep v w)\<lparr>sent := sent w @ ['':read?''], stderr_log := stderr_log w @ [ReadError]\<rparr>"
  have "sampling v0 w0 (samples E) = sampling v w (e # post)"
    using sampling_passes[OF assms(3)] assms(2) by simp
  also have "\<dots> = Some (Inr (v, ?wb))"
    using iteration_read_error[OF assms(4,5)] by simp
  finally have main: "k2000_main argv E = Some (stopping E v ?wb)"
    using assms(1) by (simp add: k2000_main_def acquire_def)
  show ?thesis
  proof (cases "do_graph v")
    case True
    with g obtain gc where gc: "gp w = Opened gc" by blast
    with True c main restore_instrument_ok[OF assms(6,7)] show ?thesis
      by (simp add: stopping_def pclose_def fclose_def fputs_def sleep_def log_trailer_def)
  next
    case False
    with c main restore_instrument_ok[OF assms(6,7)] show ?thesis
      by (simp add: stopping_def fclose_def fputs_def sleep_def log_trailer_def)
  qed
qed

text \<open>
  A run with the display blanked (\<^verbatim>\<open>-d\<close>) in which the second reading cannot be read
  back: the exit code is 0, the file is closed holding the header, the first data line
  and the trailer, the terminal is restored, the error is reported, and the display and
  the preset are restored after the last \<^verbatim>\<open>:read?\<close>.
\<close>

theorem C3_witness:
  "map_option (\<lambda>r. (fst r, outfile (snd r), tty_raw (snd r), stderr_log (snd r), sent (snd r)))
     (k2000_main [''k2000'', ''-d'', ''out.dat'']
        (demo_env\<lparr>samples := [sample_at (''+1.2345E+00'' @ [LF]) 1001 0 None, read_fails]\<rparr>))
   = Some (Exit 0,
           Closed (demo_header @ ''0.0167'' @ [TAB] @ ''+1.2345E+00'' @ [LF]
                   @ ''# Acquisition stop: Thu Oct 30 04:01:00 2026'' @ [LF, LF]),
           False, [ReadError],
           [''*rst;*cls;:form:elem read,unit;*opc'', ''*idn?'',
            '':DISP:TEXT:DATA '-ACQUIRING- ';:DISP:TEXT:STAT 1'',
            '':func 'volt:dc';:init; *opc'' @ [LF], '':read?'', '':read?'',
            '':DISP:TEXT:STAT 0'', ''syst:pres''])"
proof -
  let ?argv = "[''k2000'', ''-d'', ''out.dat'']"
  let ?e1 = "sample_at (''+1.2345E+00'' @ [LF]) 1001 0 None"
  let ?E = "demo_env\<lparr>samples := [?e1, read_fails]\<rparr>"
  let ?s = "startup ?argv ?E"
  let ?v0 = "fst (projr ?s)" and ?w0 = "snd (projr ?s)"
  let ?p = "passes ?v0 ?w0 [?e1]"
  have "\<not> isl ?s" by code_simp
  then have 1: "?s = Inr (?v0, ?w0)" by (rule Inr_projr)
  have 2: "samples ?E = [?e1] @ read_fails # []" by simp
  have "?p \<noteq> None" by code_simp
  then have 3: "?p = Some (fst (the ?p), snd (the ?p))" by (rule Some_the)
  have 4: "wrt_ok read_fails" and 5: "rd read_fails = RdErr" by (simp_all add: read_fails_def)
  have 6: "disp_restore_ok ?E" and 7: "pres_ok ?E" by (simp_all add: demo_env_def)
  have 8: "outfile (snd (the ?p)) = Opened (demo_header @ ''0.0167'' @ [TAB] @ ''+1.2345E+00'' @ [LF])"
    by code_simp
  have 9: "stderr_log (snd (the ?p)) = []" by code_simp
  have 10: "sent (snd (the ?p)) = [''*rst;*cls;:form:elem read,unit;*opc'', ''*idn?'',
            '':DISP:TEXT:DATA '-ACQUIRING- ';:DISP:TEXT:STAT 1'',
            '':func 'volt:dc';:init; *opc'' @ [LF], '':read?'']"
    by code_simp
  have 11: "\<not> do_display (fst (the ?p))" by code_simp
  have 12: "ctime_stop ?E = ''Thu Oct 30 04:01:00 2026'' @ [LF]" by (simp add: demo_env_def)
  from C3_read_failure_exit_0[OF 1 2 3 4 5 6 7]
  obtain c wf where *:
    "outfile (snd (the ?p)) = Opened c"
    "k2000_main ?argv ?E = Some (Exit 0, wf)"
    "stderr_log wf = stderr_log (snd (the ?p)) @ [ReadError]"
    "outfile wf = Closed (c @ ''# Acquisition stop: '' @ ctime_stop ?E @ [LF])"
    "\<not> tty_raw wf"
    "sent wf = sent (snd (the ?p)) @ ['':read?'']
        @ (if do_display (fst (the ?p)) then [] else ['':DISP:TEXT:STAT 0'']) @ [''syst:pres'']"
    by blast
  from *(1) 8 have c: "c = demo_header @ ''0.0167'' @ [TAB] @ ''+1.2345E+00'' @ [LF]" by simp
  from *(2-6) show ?thesis unfolding c 9 10 12 using 11 by simp
qed

text \<open>
  Claim C4 says that every command line the option parser accepts gives a flush interval
  above zero, so that the remainder in the periodic check never divides by zero. The
  option \<open>-w\<close> stores what \<^verbatim>\<open>sscanf\<close> reads without a range check (the options \<open>-a\<close>,
  \<open>-t\<close>, \<open>-T\<close> and \<open>-m\<close> have one): \<open>-w 0\<close> is accepted and the first pass of the loop
  takes a remainder by zero; \<open>-w -3\<close> is accepted as well.
\<close>

theorem C4_flush_interval_zero:
  "parse_options demo_scan_g [''k2000'', ''-w'', ''0'', ''out.dat''] init_vars init_getopt
     = Inr (init_vars\<lparr>do_flush := 0, key := EOF\<rparr>, \<lparr>optind = 3, letP = None, optarg = None\<rparr>)
   \<and> map_option fst (k2000_main [''k2000'', ''-w'', ''0'', ''out.dat''] demo_env) = Some (Fault DivByZero)
   \<and> parse_options demo_scan_g [''k2000'', ''-w'', ''-3'', ''out.dat''] init_vars init_getopt
     = Inr (init_vars\<lparr>do_flush := - 3, key := EOF\<rparr>, \<lparr>optind = 3, letP = None, optarg = None\<rparr>)"
  by code_simp

text \<open>
  Claim C5 says that the mode-select command sent is the template
  \<^verbatim>\<open>:func '<token>';:init; *opc\<close> with the token of the mode. The command that is sent ends
  with a line feed after \<^verbatim>\<open>*opc\<close>: in the sample run the third command written to the bus
  is not the template for mode 0.
\<close>

theorem C5_counterexample:
  "map_option (\<lambda>r. sent (snd r) ! 2) (k2000_main [''k2000'', ''out.dat''] demo_env)
     = Some ('':func 'volt:dc';:init; *opc'' @ [LF])
   \<and> '':func 'volt:dc';:init; *opc'' @ [LF] \<noteq> spec_mode_command 0"
  by code_simp

text \<open>
  Claim C5, amended. In every run that reaches the sampling loop the mode is one of 0 to 5,
  the last command sent before the loop is the template with the token of that mode,
  followed by a line feed, and, when graphics are on, gnuplot has received the two set-up
  lines, the second with the axis label of that mode.
\<close>

theorem C5_mode_command_and_label:
  assumes "startup argv E = Inr (v, w)"
  shows "0 \<le> mode v \<and> mode v \<le> 5
     \<and> sent w = [''*rst;*cls;:form:elem read,unit;*opc'', ''*idn?'']
            @ (if do_display v then []
               else ['':DISP:TEXT:DATA '' @ [SQ] @ ''-ACQUIRING- '' @ [SQ] @ '';:DISP:TEXT:STAT 1''])
            @ [spec_mode_command (mode v) @ [LF]]
     \<and> (do_graph v \<longrightarrow>
          gp w = Opened (''set mouse;set mouse labels; set style data lines; set title ''
                           @ [SQ] @ filename v @ [SQ, LF]
                         @ ''set grid xt; set grid yt; set xlabel 'min'; set ylabel ''
                           @ [SQ] @ spec_label (mode v) @ [SQ, LF]))"
proof -
  from assms obtain vp g where
    P: "parse_options (scan_g E) argv init_vars init_getopt = Inr (vp, g)"
    by (auto simp: startup_def split: sum.splits)
  with assms obtain v1 w1 where
    O: "prepare_output argv E vp g init_world = Inr (v1, w1)"
    and I: "instrument_setup E v1 w1 = Inr (v, w)"
    by (auto simp: startup_def split: sum.splits)
  from I obtain v2 w2 where
    C: "connect E v1 w1 = Inr (v2, w2)"
    and S: "start_acquisition E (fst (start_gnuplot E v2 w2)) (snd (start_gnuplot E v2 w2)) = (v, w)"
    by (auto simp: instrument_setup_def split: sum.splits prod.splits)
  from parse_options_mode[OF P] have "0 \<le> mode vp \<and> mode vp \<le> 5" by (simp add: init_vars_def)
  with prepare_output_Inr[OF O] connect_Inr[OF C]
  have m2: "0 \<le> mode v2" "mode v2 \<le> 5" and m: "mode v2 = mode v1" and d: "do_display v2 = do_display v1"
    by simp_all
  from S have vw: "mode v = mode v2" "do_display v = do_display v2" "filename v = filename v2"
      "sent w = sent w2"
      "do_graph v \<longrightarrow> gp w = Opened (gnuplot_setup v2)"
    by (auto simp: start_acquisition_def start_gnuplot_def split: if_splits)
  from connect_Inr_sent[OF C] prepare_output_Inr[OF O] m d vw
  have "sent w = [''*rst;*cls;:form:elem read,unit;*opc'', ''*idn?'']
            @ (if do_display v then []
               else ['':DISP:TEXT:DATA '' @ [SQ] @ ''-ACQUIRING- '' @ [SQ] @ '';:DISP:TEXT:STAT 1''])
            @ [mode_command (mode v)]"
    by simp
  with mode_command_spec[OF m2] vw m2 show ?thesis
    by (simp add: gnuplot_setup_def)
qed

text \<open>Mode 3 on the sample run: the token \<open>temp\<close>, the label \<open>degrees C\<close>.\<close>

theorem C5_witness:
  "map_sum id (\<lambda>r. (mode (fst r), last (sent (snd r)), gp (snd r)))
     (startup [''k2000'', ''-m'', ''3'', ''out.dat''] demo_env)
   = Inr (3, '':func 'temp';:init; *opc'' @ [LF],
          Opened (''set mouse;set mouse labels; set style data lines; set title '' @ [SQ] @ ''out.dat'' @ [SQ, LF]
                  @ ''set grid xt; set grid yt; set xlabel 'min'; set ylabel '' @ [SQ] @ ''degrees C'' @ [SQ, LF]))"
proof -
  let ?argv = "[''k2000'', ''-m'', ''3'', ''out.dat'']"
  let ?s = "startup ?argv demo_env"
  let ?v0 = "fst (projr ?s)" and ?w0 = "snd (projr ?s)"
  have "\<not> isl ?s" by code_simp
  then have 1: "?s = Inr (?v0, ?w0)" by (rule Inr_projr)
  have 2: "mode ?v0 = 3" "do_graph ?v0" "filename ?v0 = ''out.dat''" by code_simp+
  from C5_mode_command_and_label[OF 1] 2
  have "last (sent ?w0) = spec_mode_command 3 @ [LF]"
    "gp ?w0 = Opened (''set mouse;set mouse labels; set style data lines; set title ''
                           @ [SQ] @ ''out.dat'' @ [SQ, LF]
                         @ ''set grid xt; set grid yt; set xlabel 'min'; set ylabel ''
                           @ [SQ] @ spec_label 3 @ [SQ, LF])"
    by simp_all
  with 2(1) have "(mode ?v0, last (sent ?w0), gp ?w0)
      = (3, '':func 'temp';:init; *opc'' @ [LF],
          Opened (''set mouse;set mouse labels; set style data lines; set title '' @ [SQ] @ ''out.dat'' @ [SQ, LF]
                  @ ''set grid xt; set grid yt; set xlabel 'min'; set ylabel '' @ [SQ] @ ''degrees C'' @ [SQ, LF]))"
    by (simp add: spec_mode_command_def spec_token_def spec_label_def)
  moreover have "map_sum id (\<lambda>r. (mode (fst r), last (sent (snd r)), gp (snd r))) ?s
      = Inr (mode ?v0, last (sent ?w0), gp ?w0)"
    using arg_cong[OF 1, of "map_sum id (\<lambda>r. (mode (fst r), last (sent (snd r)), gp (snd r)))"]
    by (simp only: map_sum.simps fst_conv snd_conv)
  ultimately show ?thesis by (simp only:)
qed

text \<open>
  Claim C6 says that every data line is the elapsed minutes, a tab and the reading text,
  that read back the elapsed minutes are non-decreasing and that the reading is the device
  response, with \<open>+9.9E37\<close> written as \<open>OVERFLOW\<close>. The elapsed minutes come from
  \<^verbatim>\<open>gettimeofday\<close>, the wall clock: in the run below it is set back by thirty seconds
  between the two readings, and the log holds 1.0000 followed by 0.5000.
\<close>

theorem C6_counterexample:
  "map_option (\<lambda>r. log_fields (file_text (outfile (snd r))))
     (k2000_main [''k2000'', ''out.dat''] (demo_env\<lparr>samples := clock_set_back\<rparr>))
     = Some [(''1.0000'', ''+1.0E+00''), (''0.5000'', ''+2.0E+00'')]
   \<and> \<not> read_fixed ''1.0000'' \<le> read_fixed ''0.5000''"
proof (rule conjI)
  show "map_option (\<lambda>r. log_fields (file_text (outfile (snd r))))
     (k2000_main [''k2000'', ''out.dat''] (demo_env\<lparr>samples := clock_set_back\<rparr>))
     = Some [(''1.0000'', ''+1.0E+00''), (''0.5000'', ''+2.0E+00'')]"
    by code_simp
  show "\<not> read_fixed ''1.0000'' \<le> read_fixed ''0.5000''"
    by (simp add: read_fixed_def dec_val_def digit_val_def)
qed

text \<open>
  Claim C6, amended. Whatever a pass of the loop appends to the log is one data line: the
  elapsed minutes printed with four decimals, a tab, the reading text, a line feed. Split
  at the first tab the line gives both fields back, and the number read back is within
  0.00005 of the elapsed minutes. The reading text equals the raw device response
  unchanged, except that a raw response exactly equal to \<open>+9.9E37\<close> is written as
  \<open>OVERFLOW\<close>; here the raw response is the text that the device sends before the line
  feed that ends its message, fewer than 90 bytes, none of them NUL or CR. From one line
  to the next the numbers read back do not decrease provided the wall clock has not gone
  back between the two passes.
\<close>

theorem C6_data_lines:
  assumes "outfile w = Opened c"
  shows "(file_text (outfile (step_world (iteration v w e))) = c
          \<or> (\<exists>b. file_text (outfile (step_world (iteration v w e)))
                    = c @ fmt_f4 (elapsed_min v (now e)) @ [TAB] @ b @ [LF]))
     \<and> (\<forall>r. wrt_ok e \<and> rd e = RdOk (r @ [LF]) \<and> length r < 90 \<and> NUL \<notin> set r \<and> CR \<notin> set r \<longrightarrow>
           outfile (step_world (iteration v w e))
             = Opened (c @ fmt_f4 (elapsed_min v (now e)) @ [TAB]
                         @ (if r = ''+9.9E37'' then ''OVERFLOW'' else r) @ [LF]))
     \<and> (\<forall>b. split_tab (fmt_f4 (elapsed_min v (now e)) @ [TAB] @ b)
              = (fmt_f4 (elapsed_min v (now e)), b))
     \<and> \<bar>read_fixed (fmt_f4 (elapsed_min v (now e))) - elapsed_min v (now e)\<bar> \<le> 1 / 20000
     \<and> (\<forall>v1 w1 e2. iteration v w e = Next v1 w1 \<and> timeinfo (now e) \<le> timeinfo (now e2) \<longrightarrow>
           read_fixed (fmt_f4 (elapsed_min v (now e)))
             \<le> read_fixed (fmt_f4 (elapsed_min v1 (now e2))))"
proof (intro conjI allI impI)
  show "file_text (outfile (step_world (iteration v w e))) = c
          \<or> (\<exists>b. file_text (outfile (step_world (iteration v w e)))
                    = c @ fmt_f4 (elapsed_min v (now e)) @ [TAB] @ b @ [LF])"
    by (simp add: iteration_outfile[OF assms] file_text_def data_line_def
        split: option.splits)
next
  fix r
  assume H: "wrt_ok e \<and> rd e = RdOk (r @ [LF]) \<and> length r < 90 \<and> NUL \<notin> set r \<and> CR \<notin> set r"
  then have "takeWhile (\<lambda>c. c \<noteq> NUL) r = r" by (intro takeWhile_eq_all_conv[THEN iffD2]) auto
  then have cl: "cut_last (r @ [LF]) = Some r" by (simp add: cut_last_def)
  from H have "Suc 0 \<le> 90 - length r" by arith
  with H have ib: "ibrd 90 (rd e) = Some (r @ [LF])" by (simp add: ibrd_def)
  from H have ok: "wrt_ok e" by simp
  have "outfile (step_world (iteration v w e))
          = Opened (c @ data_line (elapsed_min v (now e)) (overflow_subst r))"
    unfolding iteration_outfile[OF assms] ib using ok cl by simp
  then show "outfile (step_world (iteration v w e))
             = Opened (c @ fmt_f4 (elapsed_min v (now e)) @ [TAB]
                         @ (if r = ''+9.9E37'' then ''OVERFLOW'' else r) @ [LF])"
    by (simp add: data_line_def overflow_subst_def)
next
  fix b
  from fmt_f4_no_tab have "TAB \<notin> set (fmt_f4 (elapsed_min v (now e)))" by simp
  then show "split_tab (fmt_f4 (elapsed_min v (now e)) @ [TAB] @ b)
              = (fmt_f4 (elapsed_min v (now e)), b)"
    by (rule split_tab_line)
next
  from shown4_close[of "elapsed_min v (now e)"]
  show "\<bar>read_fixed (fmt_f4 (elapsed_min v (now e))) - elapsed_min v (now e)\<bar> \<le> 1 / 20000"
    by (simp add: read_fixed_fmt_f4)
next
  fix v1 w1 e2
  assume N: "iteration v w e = Next v1 w1 \<and> timeinfo (now e) \<le> timeinfo (now e2)"
  from iteration_Next[of v w e v1 w1] N obtain bb where
    "periodic_flush
          (v\<lparr>buffer := overflow_subst bb, loop := loop v + 1,
             key := (if tstop v < elapsed_min v (now e) \<and> 0 < tstop v then ESC else key v)\<rparr>)
          ((sleep v w)\<lparr>sent := sent w @ ['':read?''],
             outfile := fputs (data_line (elapsed_min v (now e)) (overflow_subst bb)) (outfile w)\<rparr>)
          e = Next v1 w1"
    by blast
  from periodic_flush_Next[OF this] have t0: "t0 v1 = t0 v" by simp
  from N have "timeinfo (now e) - t0 v \<le> timeinfo (now e2) - t0 v" by simp
  then have "to_double (timeinfo (now e) - t0 v) / 60 \<le> to_double (timeinfo (now e2) - t0 v) / 60"
    by (intro divide_right_mono to_double_mono) simp_all
  then have "elapsed_min v (now e) \<le> elapsed_min v1 (now e2)"
    unfolding elapsed_min_def t0 by (rule to_double_mono)
  then show "read_fixed (fmt_f4 (elapsed_min v (now e)))
             \<le> read_fixed (fmt_f4 (elapsed_min v1 (now e2)))"
    by (simp add: read_fixed_fmt_f4 shown4_mono)
qed

text \<open>
  The overflow reading one second after the start, followed by a reading a second later:
  the first pass appends the line \<open>0.0167\<close>, tab, \<open>OVERFLOW\<close>, and the number read back
  from it is not above the one of the second pass. In the sample run the log read back
  holds 0.0167 with the reading as sent and 0.0417 with \<open>OVERFLOW\<close>.
\<close>

theorem C6_witness:
  "outfile (step_world (iteration (init_vars\<lparr>t0 := 1000\<rparr>) (init_world\<lparr>outfile := Opened []\<rparr>) overflow_pass))
     = Opened (''0.0167'' @ [TAB] @ ''OVERFLOW'' @ [LF])
   \<and> fmt_f4 (elapsed_min (init_vars\<lparr>t0 := 1000\<rparr>) (now overflow_pass)) = ''0.0167''
   \<and> read_fixed (fmt_f4 (elapsed_min (init_vars\<lparr>t0 := 1000\<rparr>) (now overflow_pass)))
       \<le> read_fixed (fmt_f4 (elapsed_min (init_vars\<lparr>t0 := 1000\<rparr>) (now late_without_key)))
   \<and> map_option (\<lambda>r. log_fields (file_text (outfile (snd r))))
        (k2000_main [''k2000'', ''out.dat''] demo_env)
       = Some [(''0.0167'', ''+1.2345E+00''), (''0.0417'', ''OVERFLOW'')]"
proof -
  let ?v = "init_vars\<lparr>t0 := 1000\<rparr>"
  let ?w = "init_world\<lparr>outfile := Opened []\<rparr>"
  let ?v1 = "?v\<lparr>buffer := ''OVERFLOW'', loop := 1\<rparr>"
  let ?w1 = "init_world\<lparr>outfile := Opened (''0.0167'' @ [TAB] @ ''OVERFLOW'' @ [LF]),
                      sent := ['':read?''], slept := [1000000]\<rparr>"
  have 1: "outfile ?w = Opened []" by simp
  have 2: "wrt_ok overflow_pass \<and> rd overflow_pass = RdOk (''+9.9E37'' @ [LF]) \<and> length ''+9.9E37'' < 90
      \<and> NUL \<notin> set ''+9.9E37'' \<and> CR \<notin> set ''+9.9E37''"
    by (simp add: overflow_pass_def sample_at_def)
  have 3: "iteration ?v ?w overflow_pass = Next ?v1 ?w1 \<and> timeinfo (now overflow_pass) \<le> timeinfo (now late_without_key)"
    by code_simp
  have 4: "fmt_f4 (elapsed_min ?v (now overflow_pass)) = ''0.0167''" by code_simp
  note T = C6_data_lines[OF 1, of ?v overflow_pass]
  from T[THEN conjunct2, THEN conjunct1, rule_format, OF 2]
  have A: "outfile (step_world (iteration ?v ?w overflow_pass))
     = Opened (''0.0167'' @ [TAB] @ ''OVERFLOW'' @ [LF])"
    unfolding 4 by simp
  from T[THEN conjunct2, THEN conjunct2, THEN conjunct2, THEN conjunct2, rule_format, OF 3]
  have "read_fixed (fmt_f4 (elapsed_min ?v (now overflow_pass)))
      \<le> read_fixed (fmt_f4 (elapsed_min ?v1 (now late_without_key)))" .
  then have B: "read_fixed (fmt_f4 (elapsed_min ?v (now overflow_pass)))
      \<le> read_fixed (fmt_f4 (elapsed_min ?v (now late_without_key)))"
    by (simp add: elapsed_min_def)
  have C: "map_option (\<lambda>r. log_fields (file_text (outfile (snd r))))
        (k2000_main [''k2000'', ''out.dat''] demo_env)
       = Some [(''0.0167'', ''+1.2345E+00''), (''0.0417'', ''OVERFLOW'')]"
    by code_simp
  from A 4 B C show ?thesis by blast
qed

text \<open>
  Claim C7. If the output file exists and overwriting was not forced, the user is prompted;
  only the answer \<open>y\<close> or \<open>Y\<close> lets the program go on (to \<^verbatim>\<open>fopen\<close> and the instrument),
  any other answer makes it return 1 with the file never opened.
\<close>

theorem C7_overwrite_prompt:
  assumes "parse_options (scan_g E) argv init_vars init_getopt = Inr (v, g)"
    and "arg_at argv (optind g) = Some a" and "length a < MAXLEN"
    and "file_exists E" and "\<not> do_overwrite v"
  shows "(answer E = of_char (CHR ''y'') \<or> answer E = of_char (CHR ''Y'') \<longrightarrow>
            startup argv E =
              (case open_outfile E (v\<lparr>filename := a, key := answer E\<rparr>)
                      (init_world\<lparr>stderr_log := [FileExists a]\<rparr>) of
                 Inl r \<Rightarrow> Inl r
               | Inr (v1, w1) \<Rightarrow> instrument_setup E v1 w1))
       \<and> (answer E \<noteq> of_char (CHR ''y'') \<and> answer E \<noteq> of_char (CHR ''Y'') \<longrightarrow>
            (\<exists>w. k2000_main argv E = Some (Exit 1, w) \<and> outfile w = Unopened
               \<and> stderr_log w = [FileExists a]))"
  using assms
  by (auto simp: k2000_main_def startup_def prepare_output_def init_world_def)

text \<open>The answer \<open>n\<close> ends the sample run with code 1; the answer \<open>y\<close> goes on to
  \<^verbatim>\<open>fopen\<close>, whose failure here ends the run with code 4.\<close>

theorem C7_witness:
  "map_option fst (k2000_main [''k2000'', ''out.dat''] (demo_env\<lparr>file_exists := True\<rparr>)) = Some (Exit 1)
   \<and> map_option (\<lambda>r. outfile (snd r)) (k2000_main [''k2000'', ''out.dat''] (demo_env\<lparr>file_exists := True\<rparr>))
       = Some Unopened
   \<and> map_option (\<lambda>r. outfile (snd r))
        (k2000_main [''k2000'', ''out.dat''] (demo_env\<lparr>file_exists := True, answer := of_char (CHR ''y''), fopen_ok := False\<rparr>))
       = Some Unopened
   \<and> map_option fst
        (k2000_main [''k2000'', ''out.dat''] (demo_env\<lparr>file_exists := True, answer := of_char (CHR ''y''), fopen_ok := False\<rparr>))
       = Some (Exit ERR_FILE)"
proof -
  let ?argv = "[''k2000'', ''out.dat'']"
  let ?E = "demo_env\<lparr>file_exists := True\<rparr>"
  let ?F = "demo_env\<lparr>file_exists := True, answer := of_char (CHR ''y''), fopen_ok := False\<rparr>"
  let ?v = "init_vars\<lparr>key := EOF\<rparr>"
  let ?g = "\<lparr>optind = 1, letP = None, optarg = None\<rparr>"
  have 1: "parse_options (scan_g ?E) ?argv init_vars init_getopt = Inr (?v, ?g)" by code_simp
  have p1: "parse_options (scan_g ?F) ?argv init_vars init_getopt = Inr (?v, ?g)" by code_simp
  have 2: "arg_at ?argv (optind ?g) = Some ''out.dat''" by code_simp
  have 3: "length ''out.dat'' < MAXLEN" by simp
  have 4: "file_exists ?E" "file_exists ?F" by simp_all
  have 5: "\<not> do_overwrite ?v" by (simp add: init_vars_def)
  have 6: "answer ?E \<noteq> of_char (CHR ''y'') \<and> answer ?E \<noteq> of_char (CHR ''Y'')"
    by (simp add: demo_env_def)
  have 7: "answer ?F = of_char (CHR ''y'') \<or> answer ?F = of_char (CHR ''Y'')" by simp
  from C7_overwrite_prompt[OF 1 2 3 4(1) 5, THEN conjunct2, rule_format, OF 6]
  have A: "map_option fst (k2000_main ?argv ?E) = Some (Exit 1)
      \<and> map_option (\<lambda>r. outfile (snd r)) (k2000_main ?argv ?E) = Some Unopened"
    by auto
  from C7_overwrite_prompt[OF p1 2 3 4(2) 5, THEN conjunct1, rule_format, OF 7]
  have "startup ?argv ?F = Inl (Exit ERR_FILE, init_world\<lparr>stderr_log := [FileExists ''out.dat'', CannotOpen ''out.dat'']\<rparr>)"
    by (simp add: open_outfile_def)
  then have B: "map_option (\<lambda>r. outfile (snd r)) (k2000_main ?argv ?F) = Some Unopened
      \<and> map_option fst (k2000_main ?argv ?F) = Some (Exit ERR_FILE)"
    by (simp add: k2000_main_def init_world_def)
  from A B show ?thesis by simp
qed

text \<open>
  Claim C8 says that with a positive time limit and no delay the loop ends in the first
  pass in which the elapsed minutes exceed the limit. In the run below the limit is 0.01
  minutes; the first reading comes after one second (0.0167 minutes) while the key \<open>x\<close> is
  pending: the loop does not end there but logs a second reading (this is the behaviour of
  claim C10). No \<^verbatim>\<open>usleep\<close> is made. When no key is pending the loop does end in that
  pass, see \<open>time_limit_stops_loop\<close>.
\<close>

theorem C8_key_postpones_time_limit:
  "map_option (\<lambda>r. (fst r, outfile (snd r), slept (snd r)))
     (k2000_main [''k2000'', ''-T'', ''0.01'', ''-t'', ''0'', ''out.dat'']
        (demo_env\<lparr>samples := [late_with_key, late_without_key]\<rparr>))
   = Some (Exit 0,
           Closed (demo_header
                   @ ''0.0167'' @ [TAB] @ ''+1.0E+00'' @ [LF]
                   @ ''0.0333'' @ [TAB] @ ''+2.0E+00'' @ [LF]
                   @ log_trailer demo_env),
           [])"
  by code_simp

text \<open>
  Claim C9. Whatever the command line, and so whatever is given to \<open>-g\<close>, the only command
  ever passed to \<^verbatim>\<open>popen\<close> is the literal \<open>gnuplot\<close>; the path given to \<open>-g\<close> is stored in
  the variable \<^verbatim>\<open>gnuplot\<close> and not used.
\<close>

theorem C9_plotter_is_gnuplot:
  assumes "k2000_main argv E = Some (out, w)"
  shows "popen_cmds w = [] \<or> popen_cmds w = [''gnuplot'']"
proof (cases "startup argv E")
  case (Inl r)
  with assms have "startup argv E = Inl (out, w)" by (simp add: k2000_main_def)
  from startup_Inl_popen_cmds[OF this] show ?thesis by simp
next
  case (Inr r)
  obtain v0 w0 where r: "r = (v0, w0)" by (cases r)
  with Inr have s: "startup argv E = Inr (v0, w0)" by simp
  from startup_Inr_popen_cmds[OF s] have p: "popen_cmds w0 = [''gnuplot'']" .
  from assms s obtain x where x: "sampling v0 w0 (samples E) = Some x"
    by (auto simp: k2000_main_def acquire_def split: option.splits)
  show ?thesis
  proof (cases x)
    case (Inl a)
    with x assms s have "a = (out, w)" by (simp add: k2000_main_def acquire_def)
    with sampling_popen_cmds[OF x] Inl p show ?thesis by simp
  next
    case (Inr b)
    with x assms s have "stopping E (fst b) (snd b) = (out, w)"
      by (simp add: k2000_main_def acquire_def split: prod.splits)
    with stopping_popen_cmds[of E "fst b" "snd b"] sampling_popen_cmds[OF x] Inr p
    show ?thesis by simp
  qed
qed

text \<open>The option \<open>-g\<close> stores its argument; the run launches \<open>gnuplot\<close>.\<close>

theorem C9_witness:
  "map_sum id (\<lambda>r. gnuplot (fst r))
     (parse_options demo_scan_g [''k2000'', ''-g'', ''/opt/gnuplot5/bin/gnuplot'', ''out.dat''] init_vars init_getopt)
     = Inr ''/opt/gnuplot5/bin/gnuplot''
   \<and> map_option (\<lambda>r. popen_cmds (snd r))
       (k2000_main [''k2000'', ''-g'', ''/opt/gnuplot5/bin/gnuplot'', ''out.dat''] demo_env)
     = Some [''gnuplot'']"
proof -
  let ?argv = "[''k2000'', ''-g'', ''/opt/gnuplot5/bin/gnuplot'', ''out.dat'']"
  let ?m = "k2000_main ?argv demo_env"
  have A: "map_sum id (\<lambda>r. gnuplot (fst r)) (parse_options demo_scan_g ?argv init_vars init_getopt)
     = Inr ''/opt/gnuplot5/bin/gnuplot''"
    by code_simp
  have "?m \<noteq> None" by code_simp
  then have 1: "?m = Some (fst (the ?m), snd (the ?m))" by (rule Some_the)
  have 2: "popen_cmds (snd (the ?m)) \<noteq> []" by code_simp
  from C9_plotter_is_gnuplot[OF 1] 2 have "popen_cmds (snd (the ?m)) = [''gnuplot'']" by simp
  moreover have "map_option (\<lambda>r. popen_cmds (snd r)) ?m = Some (popen_cmds (snd (the ?m)))"
    using arg_cong[OF 1, of "map_option (\<lambda>r. popen_cmds (snd r))"]
    by (simp only: option.map snd_conv)
  ultimately have "map_option (\<lambda>r. popen_cmds (snd r)) ?m = Some [''gnuplot'']" by (simp only:)
  with A show ?thesis by (rule conjI)
qed

text \<open>
  Claim C10. If in one pass the time limit is exceeded, which sets \<^verbatim>\<open>key\<close> to ESC, and
  \<^verbatim>\<open>kbhit\<close> finds a key that \<^verbatim>\<open>readch\<close> returns as neither \<open>q\<close> nor ESC, that key
  overwrites \<^verbatim>\<open>key\<close> and the loop goes into its next pass.
\<close>

theorem C10_key_overrides_time_limit:
  assumes "wrt_ok e" and "ibrd 90 (rd e) = Some d" and "cut_last d = Some b"
    and "(word_of_int (do_flush v) :: 64 word) \<noteq> 0"
    and "0 < tstop v" and "tstop v < elapsed_min v (now e)"
    and "kbhit (peek_character v) (kb_nb e) = (True, p)"
    and "readch p (kb_blk e) = Some (k, p')"
    and "k \<noteq> of_char (CHR ''q'')" and "k \<noteq> ESC"
  shows "\<exists>vt wt v'. iteration v w e = poll_keyboard vt wt e \<and> key vt = ESC
     \<and> poll_keyboard vt wt e = Next v' wt \<and> key v' = k
     \<and> sampling v w (e # es) = sampling v' wt es"
proof -
  let ?vt = "v\<lparr>buffer := overflow_subst b, loop := loop v + 1,
          key := (if tstop v < elapsed_min v (now e) \<and> 0 < tstop v then ESC else key v)\<rparr>"
  let ?w1 = "(sleep v w)\<lparr>sent := sent w @ ['':read?''],
          outfile := fputs (data_line (elapsed_min v (now e)) (overflow_subst b)) (outfile w)\<rparr>"
  let ?wt = "if loop ?vt mod word_of_int (do_flush ?vt) = 0 \<and> do_graph ?vt
             then ?w1\<lparr>gp := fputs (plot_command ?vt) (gp ?w1)\<rparr> else ?w1"
  have wt: "iteration v w e = poll_keyboard ?vt ?wt e"
    using iteration_logged[OF assms(1,2,3)] assms(4) by (simp add: periodic_flush_def)
  have k: "key ?vt = ESC" using assms(5,6) by simp
  let ?v' = "?vt\<lparr>peek_character := p', key := k\<rparr>"
  have P: "poll_keyboard ?vt ?wt e = Next ?v' ?wt"
    using assms(7,8) by (simp add: poll_keyboard_def)
  have "sampling v w (e # es) = sampling ?v' ?wt es"
    using wt P assms(9,10) by simp
  with wt k P show ?thesis by (intro exI[of _ ?vt] exI[of _ ?wt] exI[of _ ?v']) simp
qed

text \<open>With a limit of 0.01 minutes (the \<^verbatim>\<open>float\<close> nearest to it) and \<open>x\<close> pending one second
  after the start, the loop logs a second reading.\<close>

theorem C10_witness:
  "(\<exists>v' wt. key v' = of_char (CHR ''x'')
       \<and> sampling (init_vars\<lparr>tstop := to_float (1 / 100), t0 := 1000\<rparr>) (init_world\<lparr>outfile := Opened []\<rparr>)
             [late_with_key, late_without_key]
           = sampling v' wt [late_without_key])
   \<and> map_option (map_sum id (\<lambda>r. outfile (snd r)))
        (sampling (init_vars\<lparr>tstop := to_float (1 / 100), t0 := 1000\<rparr>) (init_world\<lparr>outfile := Opened []\<rparr>)
           [late_with_key, late_without_key])
      = Some (Inr (Opened (''0.0167'' @ [TAB] @ ''+1.0E+00'' @ [LF] @ ''0.0333'' @ [TAB] @ ''+2.0E+00'' @ [LF])))"
proof -
  let ?v = "init_vars\<lparr>tstop := to_float (1 / 100), t0 := 1000\<rparr>"
  let ?w = "init_world\<lparr>outfile := Opened []\<rparr>"
  let ?e = late_with_key
  have 1: "wrt_ok ?e" by code_simp
  have 2: "ibrd 90 (rd ?e) = Some (''+1.0E+00'' @ [LF])" by code_simp
  have 3: "cut_last (''+1.0E+00'' @ [LF]) = Some ''+1.0E+00''" by code_simp
  have 4: "(word_of_int (do_flush ?v) :: 64 word) \<noteq> 0" by code_simp
  have 5: "0 < tstop ?v" by code_simp
  have 6: "tstop ?v < elapsed_min ?v (now ?e)" by code_simp
  have 7: "kbhit (peek_character ?v) (kb_nb ?e) = (True, of_char (CHR ''x''))" by code_simp
  have 8: "readch (of_char (CHR ''x'')) (kb_blk ?e) = Some (of_char (CHR ''x''), - 1)" by code_simp
  have 9: "(of_char (CHR ''x'') :: int) \<noteq> of_char (CHR ''q'')" by simp
  have 10: "(of_char (CHR ''x'') :: int) \<noteq> ESC" by simp
  from C10_key_overrides_time_limit[OF 1 2 3 4 5 6 7 8 9 10, of ?w "[late_without_key]"]
  have A: "\<exists>v' wt. key v' = of_char (CHR ''x'')
       \<and> sampling ?v ?w [late_with_key, late_without_key] = sampling v' wt [late_without_key]"
    by blast
  have B: "map_option (map_sum id (\<lambda>r. outfile (snd r))) (sampling ?v ?w [late_with_key, late_without_key])
      = Some (Inr (Opened (''0.0167'' @ [TAB] @ ''+1.0E+00'' @ [LF] @ ''0.0333'' @ [TAB] @ ''+2.0E+00'' @ [LF])))"
    by code_simp
  from A B show ?thesis by (rule conjI)
qed

end
